theory Spec2Isabelle
  imports Complex_Main
begin

section \<open>JavaScript values used by the wave model\<close>

text \<open>
  The simulation core of wavesim (classes \<open>WaveModel\<close>, \<open>Ripple\<close> and \<open>Utils\<close>) is embedded
  here. Numbers that hold magnitudes, velocities and forces are modelled as exact reals;
  row, column and tick counters are integers. A JavaScript array of numbers is a partial
  map from integer keys to numbers (a key that was never written reads \<open>undefined\<close>,
  here \<open>None\<close>), and a matrix is an array of such rows. The five matrices of a model are
  allocated separately by the constructor and only ever exchanged through local variables,
  so they are held by value. The configuration is always passed to the constructor (the
  default \<open>WaveModel.Conf.DRIZZLE\<close> is not modelled), its numeric fields are finite numbers,
  and a ripple acts on the model that holds it.

  Outcomes that are not a number of the model are values of \<open>js_error\<close>: \<open>TypeError\<close> is
  the exception JavaScript throws when a property of \<open>undefined\<close> is read or written,
  \<open>RangeError\<close> the one \<open>Array(n)\<close> throws for an invalid length, and \<open>NotANumber\<close> marks a
  computation whose JavaScript result is \<open>NaN\<close> (arithmetic on \<open>undefined\<close>, or \<open>0 / 0\<close>),
  which the real-valued model does not follow any further.
\<close>

datatype js_error = TypeError | RangeError | NotANumber

type_synonym jsrow = "int \<rightharpoonup> real"
type_synonym matrix = "int \<rightharpoonup> jsrow"

text \<open>Sequencing of fallible steps: the first error is the result.\<close>

definition bind_err :: "js_error + 'a \<Rightarrow> ('a \<Rightarrow> js_error + 'b) \<Rightarrow> js_error + 'b" where
  "bind_err x f = (case x of Inl e \<Rightarrow> Inl e | Inr v \<Rightarrow> f v)"

text \<open>\<open>cells[r][c]\<close> read as a value: \<open>cells[r]\<close> undefined throws, a missing column is
  \<open>undefined\<close>.\<close>

definition index2 :: "matrix \<Rightarrow> int \<Rightarrow> int \<Rightarrow> js_error + real option" where
  "index2 cells r c = (case cells r of None \<Rightarrow> Inl TypeError | Some row \<Rightarrow> Inr (row c))"

text \<open>\<open>cells[r][c]\<close> used as a number in arithmetic: \<open>undefined\<close> turns the result
  into \<open>NaN\<close>.\<close>

definition num :: "js_error + real option \<Rightarrow> js_error + real" where
  "num x = (case x of Inl e \<Rightarrow> Inl e | Inr None \<Rightarrow> Inl NotANumber | Inr (Some v) \<Rightarrow> Inr v)"

text \<open>\<open>cells[r][c] = v\<close>: throws when \<open>cells[r]\<close> is undefined, otherwise sets key \<open>c\<close> of
  that row (creating it when it was absent).\<close>

definition assign2 :: "matrix \<Rightarrow> int \<Rightarrow> int \<Rightarrow> real \<Rightarrow> js_error + matrix" where
  "assign2 cells r c v =
     (case cells r of None \<Rightarrow> Inl TypeError | Some row \<Rightarrow> Inr (cells(r \<mapsto> row(c \<mapsto> v))))"

section \<open>Utils\<close>

text \<open>\<open>Utils.numArray(size, val)\<close> and \<open>Utils.numArray2D(rows, cols, val)\<close>, for sizes that
  \<open>Array(n)\<close> accepts (the constructor below checks them).\<close>

definition numArray :: "int \<Rightarrow> real \<Rightarrow> jsrow" where
  "numArray sz val = (\<lambda>k. if 0 \<le> k \<and> k < sz then Some val else None)"

definition numArray2D :: "int \<Rightarrow> int \<Rightarrow> real \<Rightarrow> matrix" where
  "numArray2D rws cls val = (\<lambda>k. if 0 \<le> k \<and> k < rws then Some (numArray cls val) else None)"

text \<open>The remainder operator \<open>n % m\<close> of JavaScript on integers: the result takes the sign
  of the dividend, and \<open>n % 0\<close> is \<open>NaN\<close> (\<open>None\<close>).\<close>

definition js_rem :: "int \<Rightarrow> int \<Rightarrow> int option" where
  "js_rem n m = (if m = 0 then None else Some (sgn n * (\<bar>n\<bar> mod \<bar>m\<bar>)))"

text \<open>\<open>Utils.mod = function(n, m){ return n >= 0 ? n % m : ((n % m) + m) % n; }\<close>\<close>

definition Utils_mod :: "int \<Rightarrow> int \<Rightarrow> int option" where
  "Utils_mod n m =
     (if n \<ge> 0 then js_rem n m
      else (case js_rem n m of None \<Rightarrow> None | Some a \<Rightarrow> js_rem (a + m) n))"

text \<open>The modulo the documentation of \<open>Utils.mod\<close> announces ("the value of n mod m").\<close>

definition true_mod :: "int \<Rightarrow> int \<Rightarrow> int" where
  "true_mod n m = n mod m"

section \<open>The boundary accessor\<close>

text \<open>
  \<open>getterFactory(propName, defValue)\<close> captures the matrix, the torus flag and the grid
  size and returns the lookup function; \<open>getter isT rws cls cells defValue\<close> is that
  function. With a \<open>NaN\<close> row index \<open>cells[r]\<close> is undefined and the read throws; with a
  \<open>NaN\<close> column index the read gives \<open>undefined\<close>.
\<close>

definition getter :: "bool \<Rightarrow> int \<Rightarrow> int \<Rightarrow> matrix \<Rightarrow> real \<Rightarrow> int \<Rightarrow> int \<Rightarrow> js_error + real option" where
  "getter isT rws cls cells defValue r c =
     (if isT then
        (case Utils_mod r rws of
           None \<Rightarrow> Inl TypeError
         | Some r' \<Rightarrow>
             (case Utils_mod c cls of
                None \<Rightarrow> (case cells r' of None \<Rightarrow> Inl TypeError | Some row \<Rightarrow> Inr None)
              | Some c' \<Rightarrow> index2 cells r' c'))
      else if r < 0 \<or> r \<ge> rws \<or> c < 0 \<or> c \<ge> cls then Inr (Some defValue)
      else index2 cells r c)"

text \<open>A matrix has the shape \<open>rws \<times> cls\<close> when every cell of the grid holds a number.\<close>

definition shaped :: "int \<Rightarrow> int \<Rightarrow> matrix \<Rightarrow> bool" where
  "shaped rws cls cells =
     (\<forall>r\<in>{0..<rws}. \<forall>c\<in>{0..<cls}. \<exists>v. index2 cells r c = Inr (Some v))"

text \<open>Reading a matrix from a list of rows, for concrete grids.\<close>

definition row_of :: "real list \<Rightarrow> jsrow" where
  "row_of xs = (\<lambda>k. if 0 \<le> k \<and> k < int (length xs) then Some (xs ! nat k) else None)"

definition matrix_of :: "real list list \<Rightarrow> matrix" where
  "matrix_of xss =
     (\<lambda>k. if 0 \<le> k \<and> k < int (length xss) then Some (row_of (xss ! nat k)) else None)"


section \<open>Configuration, ripples and the model state\<close>

text \<open>
  The configuration object. \<open>conf.ripples\<close> and \<open>conf.wavelength\<close> are the fields
  \<open>conf_ripples\<close> and \<open>conf_wavelength\<close> (the model and the ripple have fields of the same
  names); a spawn fraction that is \<open>NaN\<close> in the source is \<open>None\<close>.
\<close>

record config =
  isTorus :: bool
  conf_ripples :: real
  conf_wavelength :: real
  magnitude :: real
  damping :: real
  spawnCol :: "real option"
  spawnRow :: "real option"

text \<open>A \<open>Ripple\<close> object; its fields \<open>r\<close> and \<open>c\<close> are \<open>rip_r\<close> and \<open>rip_c\<close>. The back
  reference \<open>this.model\<close> is the model that holds the ripple.\<close>

record ripple =
  wavelength :: int
  iWave :: int
  rip_r :: int
  rip_c :: int
  mag :: real

text \<open>
  The constructor allocates two ripple arrays, and \<open>genForces\<close> exchanges references to
  them, so the arrays live in a store (\<open>arrays\<close>) and the fields \<open>ripples\<close>, \<open>ripples'\<close>
  (\<open>ripples_\<close> in the source) hold references. An array element is a reference to a
  \<open>Ripple\<close> object (an address of the object store \<open>objs\<close>, of which \<open>nobjs\<close> are allocated)
  or a hole. \<open>V'\<close> and \<open>M'\<close> are \<open>V_\<close> and \<open>M_\<close>. \<open>Math.random\<close> is the stream
  \<open>rand_stream\<close>, read at position \<open>rand_pos\<close>.
\<close>

datatype aref = Arr0 | Arr1

record model =
  rows :: int
  cols :: int
  conf :: config
  F :: matrix
  V :: matrix
  V' :: matrix
  M :: matrix
  M' :: matrix
  ripples :: aref
  ripples' :: aref
  nRipples :: nat
  ripplesToGen :: real
  arrays :: "aref \<Rightarrow> nat option list"
  objs :: "nat \<Rightarrow> ripple"
  nobjs :: nat
  rand_stream :: "nat \<Rightarrow> real"
  rand_pos :: nat

text \<open>Reading and writing an element of a JavaScript array: a read past the end is
  \<open>undefined\<close>, a write past the end extends the array, leaving holes.\<close>

definition js_load :: "'a option list \<Rightarrow> nat \<Rightarrow> 'a option" where
  "js_load xs i = (if i < length xs then xs ! i else None)"

definition js_store :: "'a option list \<Rightarrow> nat \<Rightarrow> 'a option \<Rightarrow> 'a option list" where
  "js_store xs i v =
     (if i < length xs then xs[i := v]
      else xs @ replicate (i - length xs) None @ [v])"

text \<open>\<open>~~x\<close>: truncation towards zero, then reduction to a signed 32-bit integer.\<close>

definition js_trunc :: "real \<Rightarrow> int" where
  "js_trunc x = (if x \<ge> 0 then \<lfloor>x\<rfloor> else \<lceil>x\<rceil>)"

definition toInt32 :: "real \<Rightarrow> int" where
  "toInt32 x = (let k = js_trunc x mod 2 ^ 32 in if k \<ge> 2 ^ 31 then k - 2 ^ 32 else k)"

definition Math_random :: "model \<Rightarrow> real \<times> model" where
  "Math_random m = (rand_stream m (rand_pos m), m\<lparr>rand_pos := rand_pos m + 1\<rparr>)"

section \<open>WaveModel: construction\<close>

definition FORCE_INFLUENCE :: real where
  "FORCE_INFLUENCE = 1 / 10"

text \<open>
  \<open>new WaveModel(rows, cols, conf)\<close>, in a world whose random source is \<open>rnd\<close> and that holds
  no ripple object yet; \<open>fresh_model\<close> is the object it builds. \<open>Array(n)\<close> throws a
  \<open>RangeError\<close> unless \<open>n\<close> is an array length; the rows are only built when there is at
  least one.
\<close>

definition blank_ripple :: ripple where
  "blank_ripple = \<lparr>wavelength = 0, iWave = 0, rip_r = 0, rip_c = 0, mag = 0\<rparr>"

definition fresh_model :: "int \<Rightarrow> int \<Rightarrow> config \<Rightarrow> (nat \<Rightarrow> real) \<Rightarrow> model" where
  "fresh_model rws cls cf rnd =
     \<lparr>rows = rws, cols = cls, conf = cf,
      F = numArray2D rws cls 0, V = numArray2D rws cls 0, V' = numArray2D rws cls 0,
      M = numArray2D rws cls 0, M' = numArray2D rws cls 0,
      ripples = Arr0, ripples' = Arr1, nRipples = 0,
      ripplesToGen = (if conf_ripples cf < 0 then - conf_ripples cf else 0),
      arrays = (\<lambda>_. []), objs = (\<lambda>_. blank_ripple), nobjs = 0,
      rand_stream = rnd, rand_pos = 0\<rparr>"

definition WaveModel :: "int \<Rightarrow> int \<Rightarrow> config \<Rightarrow> (nat \<Rightarrow> real) \<Rightarrow> js_error + model" where
  "WaveModel rws cls cf rnd =
     (if rws < 0 \<or> rws \<ge> 2 ^ 32 then Inl RangeError
      else if rws > 0 \<and> (cls < 0 \<or> cls \<ge> 2 ^ 32) then Inl RangeError
      else Inr (fresh_model rws cls cf rnd))"

section \<open>Ripple\<close>

text \<open>
  \<open>Ripple.prototype.init\<close>. The random draws are made in the order of the source:
  wavelength, row, column, magnitude, each only when its branch asks for it.
\<close>

definition Ripple_init :: "model \<Rightarrow> ripple \<times> model" where
  "Ripple_init m =
     (let cf = conf m;
          (x, m1) = (if conf_wavelength cf < 0
                     then (let (u, m0) = Math_random m in (u * - conf_wavelength cf, m0))
                     else (conf_wavelength cf, m));
          w = 1 + toInt32 x;
          (fr, m2) = (case spawnRow cf of None \<Rightarrow> Math_random m1 | Some f \<Rightarrow> (f, m1));
          r = toInt32 (fr * real_of_int (rows m2));
          (fc, m3) = (case spawnCol cf of None \<Rightarrow> Math_random m2 | Some f \<Rightarrow> (f, m2));
          c = toInt32 (fc * real_of_int (cols m3));
          (g, m4) = (if magnitude cf < 0
                     then (let (u, m0) = Math_random m3 in (u * - magnitude cf, m0))
                     else (magnitude cf, m3))
      in (\<lparr>wavelength = w, iWave = w, rip_r = r, rip_c = c, mag = g\<rparr>, m4))"

text \<open>\<open>new Ripple(model)\<close>: the initialised object is stored at a fresh address.\<close>

definition new_Ripple :: "model \<Rightarrow> nat \<times> model" where
  "new_Ripple m =
     (let (rp, m1) = Ripple_init m; a = nobjs m1
      in (a, m1\<lparr>objs := (objs m1)(a := rp), nobjs := a + 1\<rparr>))"

text \<open>A ripple object that the caller has built itself (for \<open>insertRipple\<close>), stored at a
  fresh address.\<close>

definition place_ripple :: "ripple \<Rightarrow> model \<Rightarrow> nat \<times> model" where
  "place_ripple rp m =
     (let a = nobjs m in (a, m\<lparr>objs := (objs m)(a := rp), nobjs := a + 1\<rparr>))"

text \<open>
  \<open>Ripple.prototype.applyForce\<close> of the object at address \<open>a\<close>. The assignment to
  \<open>F[r][c]\<close> throws when row \<open>r\<close> does not exist; with wavelength \<open>0\<close> the value assigned is
  \<open>NaN\<close>.
\<close>

definition applyForce :: "nat \<Rightarrow> model \<Rightarrow> js_error + (bool \<times> model)" where
  "applyForce a m =
     (let rp = objs m a in
      case F m (rip_r rp) of
        None \<Rightarrow> Inl TypeError
      | Some row \<Rightarrow>
          if wavelength rp = 0 then Inl NotANumber
          else
            (let wavePos = real_of_int (wavelength rp - iWave rp) / real_of_int (wavelength rp);
                 m1 = m\<lparr>F := (F m)(rip_r rp \<mapsto> row(rip_c rp \<mapsto> mag rp * sin (wavePos * pi * 2)))\<rparr>;
                 rp1 = rp\<lparr>iWave := iWave rp - 1\<rparr>
             in Inr (iWave rp1 \<noteq> 0, m1\<lparr>objs := (objs m1)(a := rp1)\<rparr>)))"

text \<open>The force \<open>this.mag * Math.sin(wavePos * Math.PI * 2)\<close> that \<open>applyForce\<close> assigns for
  a ripple in state \<open>rp\<close>.\<close>

definition force_of :: "ripple \<Rightarrow> real" where
  "force_of rp =
     mag rp * sin (real_of_int (wavelength rp - iWave rp) / real_of_int (wavelength rp) * pi * 2)"

text \<open>The value a cell holds, \<open>None\<close> when the cell does not exist.\<close>

definition cell_value :: "matrix \<Rightarrow> int \<Rightarrow> int \<Rightarrow> real option" where
  "cell_value cells r c = (case cells r of None \<Rightarrow> None | Some row \<Rightarrow> row c)"

text \<open>A driver that calls \<open>applyForce\<close> on the same ripple \<open>n\<close> times and records, for each
  call, what it returned and the force found at the ripple's cell after it.\<close>

fun applyForce_run :: "nat \<Rightarrow> nat \<Rightarrow> model \<Rightarrow> js_error + ((bool \<times> real option) list \<times> model)" where
  "applyForce_run 0 a m = Inr ([], m)"
| "applyForce_run (Suc n) a m =
     (case applyForce a m of
        Inl e \<Rightarrow> Inl e
      | Inr (b, m1) \<Rightarrow>
          (case applyForce_run n a m1 of
             Inl e \<Rightarrow> Inl e
           | Inr (tr, m2) \<Rightarrow>
               Inr ((b, cell_value (F m1) (rip_r (objs m1 a)) (rip_c (objs m1 a))) # tr, m2)))"


section \<open>WaveModel: modelStep\<close>

text \<open>
  The body of the two loops of \<open>modelStep\<close> at cell \<open>(r, c)\<close>. The state of the loops is the
  triple of the matrices they write: \<open>F\<close>, \<open>V_\<close> and \<open>M_\<close>; \<open>V\<close> and \<open>M\<close> are only read, and
  \<open>getM\<close> is the accessor made from \<open>M\<close> with default \<open>0\<close> before the loops start.
\<close>

definition getM :: "model \<Rightarrow> int \<Rightarrow> int \<Rightarrow> js_error + real" where
  "getM m r c = num (getter (isTorus (conf m)) (rows m) (cols m) (M m) 0 r c)"

text \<open>The right-hand side of \<open>F[r][c] += ...\<close>: the pull of the cell towards zero and
  towards its eight neighbours, read in the order of the source.\<close>

definition force_term :: "model \<Rightarrow> int \<Rightarrow> int \<Rightarrow> js_error + real" where
  "force_term m r c =
     bind_err (num (index2 (M m) r c)) (\<lambda>mrc.
     bind_err (getM m (r - 1) (c - 1)) (\<lambda>g1.
     bind_err (getM m r (c - 1)) (\<lambda>g2.
     bind_err (getM m (r + 1) (c - 1)) (\<lambda>g3.
     bind_err (getM m (r - 1) c) (\<lambda>g4.
     bind_err (getM m (r + 1) c) (\<lambda>g5.
     bind_err (getM m (r - 1) (c + 1)) (\<lambda>g6.
     bind_err (getM m r (c + 1)) (\<lambda>g7.
     bind_err (getM m (r + 1) (c + 1)) (\<lambda>g8.
     Inr (- mrc * (4 + 4 * pi) + g1 + g2 * pi + g3 + g4 * pi + g5 * pi + g6 + g7 * pi + g8))))))))))"

definition cell_step ::
    "model \<Rightarrow> matrix \<times> matrix \<times> matrix \<Rightarrow> int \<Rightarrow> int \<Rightarrow> js_error + (matrix \<times> matrix \<times> matrix)" where
  "cell_step m s r c =
     (case s of (F0, V0, M0) \<Rightarrow>
      bind_err (num (index2 (V m) r c)) (\<lambda>v.
      bind_err (assign2 V0 r c (v * (1 - damping (conf m)))) (\<lambda>V1.
      bind_err (num (index2 F0 r c)) (\<lambda>f0.
      bind_err (force_term m r c) (\<lambda>ft.
      bind_err (assign2 F0 r c (f0 + ft)) (\<lambda>F1.
      bind_err (num (index2 V1 r c)) (\<lambda>v1.
      bind_err (num (index2 F1 r c)) (\<lambda>f1.
      bind_err (assign2 V1 r c (v1 + f1 * FORCE_INFLUENCE)) (\<lambda>V2.
      bind_err (num (index2 (M m) r c)) (\<lambda>mrc.
      bind_err (num (index2 V2 r c)) (\<lambda>v2.
      bind_err (assign2 M0 r c (mrc + v2)) (\<lambda>M1.
      bind_err (assign2 F1 r c 0) (\<lambda>F2.
      Inr (F2, V2, M1))))))))))))))"

text \<open>The inner loop \<open>for(c = 0; c < cols; c++)\<close> from column \<open>c\<close> on, and the outer loop
  \<open>for(r = 0; r < rows; r++)\<close> from row \<open>r\<close> on.\<close>

function col_loop ::
    "model \<Rightarrow> int \<Rightarrow> int \<Rightarrow> matrix \<times> matrix \<times> matrix \<Rightarrow> js_error + (matrix \<times> matrix \<times> matrix)" where
  "col_loop m r c s =
     (if c < cols m
      then (case cell_step m s r c of Inl e \<Rightarrow> Inl e | Inr s1 \<Rightarrow> col_loop m r (c + 1) s1)
      else Inr s)"
  by pat_completeness auto
termination
  by (relation "measure (\<lambda>(m, r, c, s). nat (cols m - c))") auto

function row_loop ::
    "model \<Rightarrow> int \<Rightarrow> matrix \<times> matrix \<times> matrix \<Rightarrow> js_error + (matrix \<times> matrix \<times> matrix)" where
  "row_loop m r s =
     (if r < rows m
      then (case col_loop m r 0 s of Inl e \<Rightarrow> Inl e | Inr s1 \<Rightarrow> row_loop m (r + 1) s1)
      else Inr s)"
  by pat_completeness auto
termination
  by (relation "measure (\<lambda>(m, r, s). nat (rows m - r))") auto

text \<open>\<open>WaveModel.prototype.modelStep\<close>: the loops, then the exchange of \<open>V\<close> with \<open>V_\<close> and
  of \<open>M\<close> with \<open>M_\<close>.\<close>

definition modelStep :: "model \<Rightarrow> js_error + model" where
  "modelStep m =
     (case row_loop m 0 (F m, V' m, M' m) of
        Inl e \<Rightarrow> Inl e
      | Inr (F1, V1, M1) \<Rightarrow> Inr (m\<lparr>F := F1, V := V1, V' := V m, M := M1, M' := M m\<rparr>))"

text \<open>\<open>n\<close> calls of \<open>modelStep\<close> in a row.\<close>

fun modelSteps :: "nat \<Rightarrow> model \<Rightarrow> js_error + model" where
  "modelSteps 0 m = Inr m"
| "modelSteps (Suc n) m = (case modelStep m of Inl e \<Rightarrow> Inl e | Inr m1 \<Rightarrow> modelSteps n m1)"

section \<open>WaveModel: genForces and insertRipple\<close>

text \<open>
  The loop \<open>while(this.ripplesToGen >= 1)\<close>. \<open>src\<close> is the local variable \<open>ripples\<close> and \<open>n\<close>
  the local variable \<open>nRipples\<close>; the result is the model and the final \<open>nRipples\<close>.
\<close>

function spawn_loop :: "aref \<Rightarrow> model \<Rightarrow> nat \<Rightarrow> model \<times> nat" where
  "spawn_loop src m n =
     (if ripplesToGen m \<ge> 1
      then (case new_Ripple m of (a, m1) \<Rightarrow>
              spawn_loop src
                (m1\<lparr>arrays := (arrays m1)(src := js_store (arrays m1 src) n (Some a)),
                    ripplesToGen := ripplesToGen m1 - 1\<rparr>)
                (n + 1))
      else (m, n))"
  by pat_completeness auto
termination
  apply (relation "measure (\<lambda>(src, m, n). nat \<lfloor>ripplesToGen m\<rfloor>)")
   apply simp
  apply (auto simp: new_Ripple_def Ripple_init_def Math_random_def Let_def
              split: prod.splits if_splits option.splits)
  done

text \<open>
  The loop \<open>for(var i = 0, j = 0; i < nRipples; i++)\<close> from \<open>i\<close>, \<open>j\<close> on: \<open>ripples[i]\<close> is
  read from the array \<open>src\<close>, \<open>applyForce\<close> is called on it (on a hole the call throws),
  and when it returns true \<open>ripples[i]\<close> is read again and stored at \<open>ripples_[j]\<close>, in the
  array \<open>dst\<close>. The result is the final \<open>j\<close> and the model.
\<close>

function compact_loop ::
    "aref \<Rightarrow> aref \<Rightarrow> nat \<Rightarrow> nat \<Rightarrow> nat \<Rightarrow> model \<Rightarrow> js_error + (nat \<times> model)" where
  "compact_loop src dst n i j m =
     (if i < n
      then (case js_load (arrays m src) i of
              None \<Rightarrow> Inl TypeError
            | Some a \<Rightarrow>
                (case applyForce a m of
                   Inl e \<Rightarrow> Inl e
                 | Inr (b, m1) \<Rightarrow>
                     if b
                     then compact_loop src dst n (i + 1) (j + 1)
                            (m1\<lparr>arrays := (arrays m1)
                                 (dst := js_store (arrays m1 dst) j (js_load (arrays m1 src) i))\<rparr>)
                     else compact_loop src dst n (i + 1) j m1))
      else Inr (j, m))"
  by pat_completeness auto
termination
  by (relation "measure (\<lambda>(src, dst, n, i, j, m). n - i)") auto

text \<open>
  \<open>WaveModel.prototype.genForces\<close>. The last three statements are
  \<open>this.ripples = ripples_; this.ripples_ = this.ripples; this.nRipples = j;\<close>: the second
  one reads the field the first has just written, so both fields end as \<open>ripples_\<close>.
\<close>

definition genForces :: "model \<Rightarrow> js_error + model" where
  "genForces m =
     (let src = ripples m; dst = ripples' m; n = nRipples m;
          m1 = (if conf_ripples (conf m) > 0
                then m\<lparr>ripplesToGen := ripplesToGen m + conf_ripples (conf m)\<rparr> else m)
      in case spawn_loop src m1 n of (m2, n2) \<Rightarrow>
           (case compact_loop src dst n2 0 0 m2 of
              Inl e \<Rightarrow> Inl e
            | Inr (j, m3) \<Rightarrow>
                Inr (let m4 = m3\<lparr>ripples := dst\<rparr>; m5 = m4\<lparr>ripples' := ripples m4\<rparr>
                     in m5\<lparr>nRipples := j\<rparr>)))"

text \<open>\<open>WaveModel.prototype.insertRipple\<close>, for the ripple object at address \<open>a\<close>.\<close>

definition insertRipple :: "nat \<Rightarrow> model \<Rightarrow> model" where
  "insertRipple a m =
     m\<lparr>arrays := (arrays m)(ripples m := js_store (arrays m (ripples m)) (nRipples m) (Some a)),
       nRipples := nRipples m + 1\<rparr>"

text \<open>One tick of the driver: \<open>genForces\<close>, then \<open>modelStep\<close>.\<close>

definition tick :: "model \<Rightarrow> js_error + model" where
  "tick m = bind_err (genForces m) modelStep"

text \<open>The active ripples: the first \<open>nRipples\<close> elements of the array \<open>this.ripples\<close>.\<close>

definition active :: "model \<Rightarrow> nat option list" where
  "active m = take (nRipples m) (arrays m (ripples m))"


section \<open>The synchronous update, cell by cell\<close>

text \<open>
  What the body of the loops computes for cell \<open>(r, c)\<close> from the matrices as they are when
  \<open>modelStep\<close> starts: the damped velocity plus \<open>FORCE_INFLUENCE\<close> times the pending force
  and the force term, and the magnitude moved by that velocity. \<open>None\<close> where an operand is
  missing.
\<close>

definition next_V :: "model \<Rightarrow> int \<Rightarrow> int \<Rightarrow> real option" where
  "next_V m r c =
     (case (cell_value (V m) r c, cell_value (F m) r c, force_term m r c) of
        (Some v, Some f, Inr ft) \<Rightarrow> Some (v * (1 - damping (conf m)) + (f + ft) * FORCE_INFLUENCE)
      | _ \<Rightarrow> None)"

definition next_M :: "model \<Rightarrow> int \<Rightarrow> int \<Rightarrow> real option" where
  "next_M m r c =
     (case (cell_value (M m) r c, next_V m r c) of
        (Some mv, Some v1) \<Rightarrow> Some (mv + v1)
      | _ \<Rightarrow> None)"

text \<open>All five matrices of the model have the shape of its grid.\<close>

definition grid_ok :: "model \<Rightarrow> bool" where
  "grid_ok m =
     (shaped (rows m) (cols m) (F m) \<and> shaped (rows m) (cols m) (V m) \<and>
      shaped (rows m) (cols m) (V' m) \<and> shaped (rows m) (cols m) (M m) \<and>
      shaped (rows m) (cols m) (M' m))"

text \<open>Every cell of the grid holds exactly 0.\<close>

definition zero_on :: "int \<Rightarrow> int \<Rightarrow> matrix \<Rightarrow> bool" where
  "zero_on rws cls cells = (\<forall>r\<in>{0..<rws}. \<forall>c\<in>{0..<cls}. index2 cells r c = Inr (Some 0))"

text \<open>The loop state \<open>s1\<close> is the loop state \<open>s\<close> with exactly the cells of the region \<open>P\<close>
  updated.\<close>

definition updated_on ::
    "model \<Rightarrow> (int \<Rightarrow> int \<Rightarrow> bool) \<Rightarrow> matrix \<times> matrix \<times> matrix \<Rightarrow> matrix \<times> matrix \<times> matrix \<Rightarrow> bool" where
  "updated_on m P s s1 =
     (case s of (F0, V0, M0) \<Rightarrow> case s1 of (F1, V1, M1) \<Rightarrow>
        \<forall>r c. index2 F1 r c = (if P r c then Inr (Some 0) else index2 F0 r c) \<and>
              index2 V1 r c = (if P r c then Inr (next_V m r c) else index2 V0 r c) \<and>
              index2 M1 r c = (if P r c then Inr (next_M m r c) else index2 M0 r c))"

text \<open>The matrix reads like a freshly allocated \<open>rws \<times> cls\<close> matrix, except that cell
  \<open>(r, c)\<close> of the grid holds \<open>f r c\<close>.\<close>

definition reads_as :: "int \<Rightarrow> int \<Rightarrow> (int \<Rightarrow> int \<Rightarrow> real) \<Rightarrow> matrix \<Rightarrow> bool" where
  "reads_as rws cls f cells =
     (\<forall>r c. index2 cells r c =
        (if 0 \<le> r \<and> r < rws
         then Inr (if 0 \<le> c \<and> c < cls then Some (f r c) else None)
         else Inl TypeError))"

section \<open>Well-formed ripple collections\<close>

text \<open>
  The active ripples are well formed when \<open>nRipples\<close> does not exceed the length of the
  array \<open>this.ripples\<close>, the first \<open>nRipples\<close> elements are allocated ripple objects (no
  holes), and no object occurs twice among them.
\<close>

definition ripples_ok :: "model \<Rightarrow> bool" where
  "ripples_ok m =
     (nRipples m \<le> length (arrays m (ripples m)) \<and>
      (\<forall>e\<in>set (active m). case e of None \<Rightarrow> False | Some a \<Rightarrow> a < nobjs m) \<and>
      distinct (active m))"

section \<open>Drivers and example grids\<close>

text \<open>The sum of the forces a run of \<open>applyForce\<close> calls has recorded (\<open>None\<close> when a
  recorded cell was empty).\<close>

fun total_force :: "(bool \<times> real option) list \<Rightarrow> real option" where
  "total_force [] = Some 0"
| "total_force ((b, None) # tr) = None"
| "total_force ((b, Some f) # tr) = map_option (\<lambda>s. f + s) (total_force tr)"

text \<open>\<open>new Ripple(model)\<close> followed by its first \<open>applyForce\<close>: the force found at the
  ripple's cell afterwards.\<close>

definition first_call_force :: "model \<Rightarrow> js_error + real option" where
  "first_call_force m0 =
     (case new_Ripple m0 of (a, m) \<Rightarrow>
        (case applyForce a m of
           Inl e \<Rightarrow> Inl e
         | Inr (b, m1) \<Rightarrow> Inr (cell_value (F m1) (rip_r (objs m a)) (rip_c (objs m a)))))"

text \<open>A bounded 5 x 5 grid without damping and without spontaneous ripples; new ripples
  have wavelength parameter 4, magnitude 10 and spawn in the middle cell.\<close>

definition pond_conf :: config where
  "pond_conf = \<lparr>isTorus = False, conf_ripples = 0, conf_wavelength = 4, magnitude = 10,
                damping = 0, spawnCol = Some (1 / 2), spawnRow = Some (1 / 2)\<rparr>"

definition pond :: model where
  "pond = fresh_model 5 5 pond_conf (\<lambda>_. 0)"

text \<open>A bounded 1 x 1 grid with full damping and no ripples, whose only cell has
  magnitude \<open>mv\<close> and velocity \<open>v\<close>.\<close>

definition puddle :: "real \<Rightarrow> real \<Rightarrow> model" where
  "puddle mv v =
     (fresh_model 1 1 (pond_conf\<lparr>damping := 1\<rparr>) (\<lambda>_. 0))\<lparr>V := matrix_of [[v]], M := matrix_of [[mv]]\<rparr>"

text \<open>The same grid holding two ripple objects built by the caller, both on cell (2, 2)
  and both one tick into a wavelength of 4, with peak magnitudes 10 and 7.\<close>

definition two_drops :: model where
  "two_drops =
     snd (place_ripple \<lparr>wavelength = 4, iWave = 3, rip_r = 2, rip_c = 2, mag = 7\<rparr>
       (snd (place_ripple \<lparr>wavelength = 4, iWave = 3, rip_r = 2, rip_c = 2, mag = 10\<rparr> pond)))"


text \<open>The 5 x 5 grid with three ripples built and inserted by the caller; the second one
  has two ticks left, the others five.\<close>

definition three_drops :: model where
  "three_drops =
     (let (a0, m0) = place_ripple \<lparr>wavelength = 8, iWave = 5, rip_r = 1, rip_c = 1, mag = 3\<rparr> pond;
          (a1, m1) = place_ripple \<lparr>wavelength = 8, iWave = 2, rip_r = 2, rip_c = 2, mag = 10\<rparr> m0;
          (a2, m2) = place_ripple \<lparr>wavelength = 8, iWave = 5, rip_r = 3, rip_c = 3, mag = 7\<rparr> m1
      in insertRipple a2 (insertRipple a1 (insertRipple a0 m2)))"

text \<open>The 5 x 5 grid after the caller has built a ripple of wavelength 4 and magnitude 10 on
  cell (2, 2) and inserted it.\<close>

definition one_drop :: model where
  "one_drop =
     (let (a, m) = place_ripple \<lparr>wavelength = 4, iWave = 4, rip_r = 2, rip_c = 2, mag = 10\<rparr> pond
      in insertRipple a m)"

section \<open>Properties of the boundary accessor\<close>

lemma Utils_mod_minus_one: "m \<noteq> 0 \<Longrightarrow> Utils_mod (- 1) m = Some 0"
  by (simp add: Utils_mod_def js_rem_def)

lemma Utils_mod_nonneg: "0 \<le> n \<Longrightarrow> 0 < m \<Longrightarrow> Utils_mod n m = Some (n mod m)"
  by (simp add: Utils_mod_def js_rem_def sgn_if)

lemma shaped_matrix_of:
  assumes "int (length xss) = rws" and "\<forall>xs\<in>set xss. int (length xs) = cls"
  shows "shaped rws cls (matrix_of xss)"
  unfolding shaped_def
proof (intro ballI)
  fix r c assume r: "r \<in> {0..<rws}" and c: "c \<in> {0..<cls}"
  with assms have "nat r < length xss" by auto
  then have "xss ! nat r \<in> set xss" by simp
  with assms have "int (length (xss ! nat r)) = cls" by blast
  with r c assms(1) show "\<exists>v. index2 (matrix_of xss) r c = Inr (Some v)"
    by (simp add: index2_def matrix_of_def row_of_def)
qed

text \<open>
  Claim C1 (torus mode wraps with the mathematical modulo: \<open>get(-1, c) = get(rows-1, c)\<close>,
  \<open>get(rows, c) = get(0, c)\<close>, wrapped indices always inside the grid). The code does not
  do this. On the 2 x 1 torus grid with rows \<open>[1]\<close> and \<open>[2]\<close>, \<open>get(-1, 0)\<close> reads row 0 and
  returns 1, while \<open>get(rows - 1, 0)\<close> returns 2: for a negative \<open>n\<close>, \<open>Utils.mod\<close> takes the
  last remainder by \<open>n\<close> instead of \<open>m\<close>, so \<open>Utils.mod(-1, m)\<close> is 0 where \<open>-1 mod m\<close> is
  \<open>m - 1\<close>. The wrapped index can also leave the grid: \<open>Utils.mod(-6, 3)\<close> is 3. Only
  \<open>get(rows, c) = get(0, c)\<close> holds.
\<close>

theorem torus_getter_minus_one_reads_row_zero:
  "getter True 2 1 (matrix_of [[1], [2]]) 0 (- 1) 0 = Inr (Some 1) \<and>
   getter True 2 1 (matrix_of [[1], [2]]) 0 (2 - 1) 0 = Inr (Some 2) \<and>
   getter True 2 1 (matrix_of [[1], [2]]) 0 2 0 = getter True 2 1 (matrix_of [[1], [2]]) 0 0 0 \<and>
   Utils_mod (- 1) 2 = Some 0 \<and> true_mod (- 1) 2 = 1 \<and>
   Utils_mod (- 6) 3 = Some 3 \<and> true_mod (- 6) 3 = 0"
  by (simp add: getter_def Utils_mod_def js_rem_def index2_def matrix_of_def row_of_def
        true_mod_def)

text \<open>
  Claim C9: without torus mode the lookup function returns the default value for every
  coordinate outside the grid (so for \<open>get(-1, c)\<close> and \<open>get(rows, c)\<close>), returns the stored
  cell \<open>cells[r][c]\<close> for every coordinate inside it, and on a matrix of the grid's shape it
  returns a number at every pair of integers, however negative or large. The function
  yields a value and no state: it has nothing to mutate.
\<close>

theorem getter_non_torus:
  "(r < 0 \<or> r \<ge> rws \<or> c < 0 \<or> c \<ge> cls \<longrightarrow>
      getter False rws cls cells d r c = Inr (Some d)) \<and>
   (0 \<le> r \<and> r < rws \<and> 0 \<le> c \<and> c < cls \<longrightarrow>
      getter False rws cls cells d r c = index2 cells r c) \<and>
   (shaped rws cls cells \<longrightarrow> (\<exists>v. getter False rws cls cells d r c = Inr (Some v)))"
  by (auto simp: getter_def shaped_def)

theorem getter_non_torus_witness:
  "getter False 2 2 (matrix_of [[1, 2], [3, 4]]) 0 (- 1) 1 = Inr (Some 0) \<and>
   getter False 2 2 (matrix_of [[1, 2], [3, 4]]) 0 2 1 = Inr (Some 0) \<and>
   getter False 2 2 (matrix_of [[1, 2], [3, 4]]) 0 1 0 = Inr (Some 3) \<and>
   (\<exists>v. getter False 2 2 (matrix_of [[1, 2], [3, 4]]) 0 (- 1000000) 1000000 = Inr (Some v))"
proof -
  let ?g = "getter False 2 2 (matrix_of [[1, 2], [3, 4]]) 0"
  have sh: "shaped 2 2 (matrix_of [[1, 2], [3, 4]])"
    by (rule shaped_matrix_of) simp_all
  have "?g (- 1) 1 = Inr (Some 0)"
    using getter_non_torus [of "- 1" 2 1 2 "matrix_of [[1, 2], [3, 4]]" 0] by simp
  moreover have "?g 2 1 = Inr (Some 0)"
    using getter_non_torus [of 2 2 1 2 "matrix_of [[1, 2], [3, 4]]" 0] by simp
  moreover have "?g 1 0 = Inr (Some 3)"
    using getter_non_torus [of 1 2 0 2 "matrix_of [[1, 2], [3, 4]]" 0]
    by (simp add: index2_def matrix_of_def row_of_def)
  moreover have "\<exists>v. ?g (- 1000000) 1000000 = Inr (Some v)"
    using getter_non_torus [of "- 1000000" 2 1000000 2 "matrix_of [[1, 2], [3, 4]]" 0] sh
    by simp
  ultimately show ?thesis by blast
qed

section \<open>Properties of a ripple\<close>

lemma applyForce_ok:
  assumes "F m (rip_r (objs m a)) = Some row" and "wavelength (objs m a) \<noteq> 0"
  shows "applyForce a m =
    Inr (iWave (objs m a) - 1 \<noteq> 0,
         m\<lparr>F := (F m)(rip_r (objs m a) \<mapsto> row(rip_c (objs m a) \<mapsto> force_of (objs m a))),
           objs := (objs m)(a := (objs m a)\<lparr>iWave := iWave (objs m a) - 1\<rparr>)\<rparr>)"
  using assms by (simp add: applyForce_def force_of_def Let_def)

text \<open>What a run of \<open>n\<close> calls records: call number \<open>k\<close> (from 0) sees the counter at
  \<open>iWave - k\<close>.\<close>

lemma applyForce_run_trace:
  assumes "wavelength (objs m a) \<noteq> 0" and "F m (rip_r (objs m a)) \<noteq> None"
  shows "\<exists>m1. applyForce_run n a m =
           Inr (map (\<lambda>k. (iWave (objs m a) - int k - 1 \<noteq> 0,
                  Some (force_of ((objs m a)\<lparr>iWave := iWave (objs m a) - int k\<rparr>)))) [0..<n], m1)"
  using assms
proof (induction n arbitrary: m)
  case 0
  then show ?case by simp
next
  case (Suc n)
  let ?rp = "objs m a"
  from Suc.prems obtain row where row: "F m (rip_r ?rp) = Some row" by auto
  define m1 where "m1 = m\<lparr>F := (F m)(rip_r ?rp \<mapsto> row(rip_c ?rp \<mapsto> force_of ?rp)),
           objs := (objs m)(a := ?rp\<lparr>iWave := iWave ?rp - 1\<rparr>)\<rparr>"
  have step: "applyForce a m = Inr (iWave ?rp - 1 \<noteq> 0, m1)"
    using applyForce_ok [OF row Suc.prems(1)] by (simp add: m1_def)
  have o1: "objs m1 a = ?rp\<lparr>iWave := iWave ?rp - 1\<rparr>" by (simp add: m1_def)
  have "wavelength (objs m1 a) \<noteq> 0" "F m1 (rip_r (objs m1 a)) \<noteq> None"
    using Suc.prems by (simp_all add: m1_def)
  from Suc.IH [OF this] obtain m2 where
    run: "applyForce_run n a m1 =
           Inr (map (\<lambda>k. (iWave (objs m1 a) - int k - 1 \<noteq> 0,
                  Some (force_of ((objs m1 a)\<lparr>iWave := iWave (objs m1 a) - int k\<rparr>)))) [0..<n], m2)"
    by blast
  have cv: "cell_value (F m1) (rip_r ?rp) (rip_c ?rp) = Some (force_of ?rp)"
    by (simp add: m1_def cell_value_def)
  have "[0..<Suc n] = 0 # map Suc [0..<n]"
    by (simp add: upt_conv_Cons map_Suc_upt del: upt_Suc)
  then show ?case
    by (simp add: step run cv o1 o_def algebra_simps del: upt_Suc)
qed

lemma firsts_of_lifetime:
  assumes "1 \<le> w"
  shows "map (\<lambda>k. w - int k - 1 \<noteq> 0) [0..<nat w] = replicate (nat w - 1) True @ [False]"
proof -
  from assms obtain n where n: "nat w = Suc n" by (cases "nat w") auto
  then have w: "w = int n + 1" by linarith
  have "map (\<lambda>k. w - int k - 1 \<noteq> 0) [0..<n] = replicate n True"
    by (rule replicate_eqI) (auto simp: w)
  then show ?thesis by (simp add: n) (simp add: w)
qed

lemma new_Ripple_fresh:
  assumes "new_Ripple m0 = (a, m)"
  shows "iWave (objs m a) = wavelength (objs m a)" and "F m = F m0"
    and "objs m a = fst (Ripple_init m0)"
  using assms
  by (auto simp: new_Ripple_def Ripple_init_def Math_random_def Let_def
           split: prod.splits if_splits option.splits)

text \<open>A wavelength parameter from 0 up to (not including) \<open>2 ^ 31\<close> resolves to at least 1.\<close>

lemma toInt32_small:
  assumes "0 \<le> x" and "x < 2 ^ 31"
  shows "toInt32 x = \<lfloor>x\<rfloor>" and "0 \<le> toInt32 x"
proof -
  from assms have f: "0 \<le> \<lfloor>x\<rfloor>" "\<lfloor>x\<rfloor> < 2 ^ 31"
    by (simp_all add: floor_less_iff)
  then have "\<lfloor>x\<rfloor> mod 2 ^ 32 = \<lfloor>x\<rfloor>" by simp
  with assms f show "toInt32 x = \<lfloor>x\<rfloor>"
    by (simp add: toInt32_def js_trunc_def Let_def)
  with f show "0 \<le> toInt32 x" by simp
qed

lemma Ripple_init_wavelength:
  assumes "0 \<le> conf_wavelength (conf m)" and "conf_wavelength (conf m) < 2 ^ 31"
  shows "1 \<le> wavelength (fst (Ripple_init m))"
  using toInt32_small(2) [OF assms] assms
  by (simp add: Ripple_init_def Let_def split: prod.splits)

lemma pond_init:
  "Ripple_init pond = (\<lparr>wavelength = 5, iWave = 5, rip_r = 2, rip_c = 2, mag = 10\<rparr>, pond)"
  by (simp add: Ripple_init_def pond_def fresh_model_def pond_conf_def Let_def toInt32_def
        js_trunc_def)

lemma pond_ripple:
  "new_Ripple pond =
     (0, pond\<lparr>objs := (objs pond)(0 := \<lparr>wavelength = 5, iWave = 5, rip_r = 2, rip_c = 2, mag = 10\<rparr>),
              nobjs := 1\<rparr>)"
  by (simp add: new_Ripple_def pond_init) (simp add: pond_def fresh_model_def)

lemma pond_F: "F pond 2 \<noteq> None"
  by (simp add: pond_def fresh_model_def numArray2D_def)

text \<open>
  Claim C5: a ripple whose resolved wavelength and remaining-ticks counter are both
  \<open>w \<ge> 1\<close> (the state \<open>init\<close> leaves it in) returns true from exactly the first \<open>w - 1\<close> of
  \<open>w\<close> consecutive \<open>applyForce\<close> calls and false from call \<open>w\<close>; one call decrements the
  counter and returns whether it is then different from 0. An instance is the ripple that
  \<open>new Ripple\<close> builds on the 5 x 5 grid, wavelength parameter 4, resolved wavelength 5:
  true four times, then false.
\<close>

theorem applyForce_true_for_first_calls:
  assumes "wavelength (objs m a) = w" and "iWave (objs m a) = w" and "1 \<le> w"
      and "F m (rip_r (objs m a)) \<noteq> None"
  shows "(\<exists>tr m1. applyForce_run (nat w) a m = Inr (tr, m1) \<and>
                  map fst tr = replicate (nat w - 1) True @ [False]) \<and>
         (\<exists>b m1. applyForce a m = Inr (b, m1) \<and> iWave (objs m1 a) = iWave (objs m a) - 1 \<and>
                 b = (iWave (objs m1 a) \<noteq> 0))"
proof
  from assms have nz: "wavelength (objs m a) \<noteq> 0" by simp
  from applyForce_run_trace [OF nz assms(4), of "nat w"] obtain m1 where
    "applyForce_run (nat w) a m =
       Inr (map (\<lambda>k. (iWave (objs m a) - int k - 1 \<noteq> 0,
              Some (force_of ((objs m a)\<lparr>iWave := iWave (objs m a) - int k\<rparr>)))) [0..<nat w], m1)"
    by blast
  then show "\<exists>tr m1. applyForce_run (nat w) a m = Inr (tr, m1) \<and>
                  map fst tr = replicate (nat w - 1) True @ [False]"
    using firsts_of_lifetime [OF assms(3)] by (simp add: assms(2) o_def)
next
  from assms obtain row where "F m (rip_r (objs m a)) = Some row" by auto
  from applyForce_ok [OF this] assms
  show "\<exists>b m1. applyForce a m = Inr (b, m1) \<and> iWave (objs m1 a) = iWave (objs m a) - 1 \<and>
                 b = (iWave (objs m1 a) \<noteq> 0)"
    by simp
qed

theorem applyForce_true_for_first_calls_witness:
  "\<exists>tr m1. applyForce_run 5 0 (snd (new_Ripple pond)) = Inr (tr, m1) \<and>
      map fst tr = [True, True, True, True, False]"
  using applyForce_true_for_first_calls [of "snd (new_Ripple pond)" 0 5] pond_F
  by (simp add: pond_ripple numeral_eq_Suc)


text \<open>
  Claim C10 says that the first \<open>applyForce\<close> of every freshly initialised ripple writes
  force 0. That fails for a ripple whose resolved wavelength is 0: with a wavelength
  parameter of 4294967295 the operator \<open>~~\<close> wraps to \<open>-1\<close>, \<open>init\<close> sets wavelength and counter
  to \<open>1 + -1 = 0\<close>, \<open>wavePos\<close> is \<open>0 / 0\<close> and the force assigned is \<open>NaN\<close>.
\<close>

theorem fresh_ripple_wavelength_zero_first_force:
  "first_call_force (fresh_model 1 1 (pond_conf\<lparr>conf_wavelength := 4294967295\<rparr>) (\<lambda>_. 0))
     = Inl NotANumber"
  by (simp add: first_call_force_def new_Ripple_def Ripple_init_def fresh_model_def
        pond_conf_def Let_def toInt32_def js_trunc_def applyForce_def numArray2D_def)

text \<open>
  Claim C10, amended: for every freshly initialised ripple whose resolved wavelength is not
  0 and whose row exists in the force matrix, the first \<open>applyForce\<close> leaves exactly 0 at
  its cell (the progress is 0 and \<open>sin 0 = 0\<close>), so the ripple disturbs nothing on the tick
  it first fires.
\<close>

theorem fresh_ripple_first_force_zero:
  assumes "wavelength (fst (Ripple_init m0)) \<noteq> 0"
      and "F m0 (rip_r (fst (Ripple_init m0))) \<noteq> None"
  shows "first_call_force m0 = Inr (Some 0)"
proof -
  obtain a m where nr: "new_Ripple m0 = (a, m)" by (cases "new_Ripple m0")
  note fr = new_Ripple_fresh [OF nr]
  from assms fr obtain row where row: "F m (rip_r (objs m a)) = Some row" by auto
  from assms fr have nz: "wavelength (objs m a) \<noteq> 0" by simp
  show ?thesis
    by (simp add: first_call_force_def nr applyForce_ok [OF row nz] cell_value_def fr(1)
          force_of_def)
qed

theorem fresh_ripple_first_force_zero_witness: "first_call_force pond = Inr (Some 0)"
  using fresh_ripple_first_force_zero [of pond] pond_F
  by (simp add: pond_init)

text \<open>
  Claim C8: \<open>applyForce\<close> assigns the force, it does not add to it. When two ripples are
  applied one after the other and the second one sits on cell \<open>(r, c)\<close>, the force at
  \<open>(r, c)\<close> afterwards is the contribution of the second ripple alone, whatever the first
  one (or anything earlier) had left there.
\<close>

theorem applyForce_overwrites:
  assumes "applyForce a1 m = Inr (b1, m1)" and "applyForce a2 m1 = Inr (b2, m2)"
      and "rip_r (objs m1 a2) = r" and "rip_c (objs m1 a2) = c"
  shows "cell_value (F m2) r c = Some (force_of (objs m1 a2))"
  using assms(2-)
  by (auto simp: applyForce_def Let_def cell_value_def force_of_def
           split: option.splits if_splits)

theorem applyForce_overwrites_witness:
  "\<exists>b1 m1 b2 m2. applyForce 0 two_drops = Inr (b1, m1) \<and> applyForce 1 m1 = Inr (b2, m2) \<and>
      cell_value (F m1) 2 2 = Some 10 \<and> cell_value (F m2) 2 2 = Some 7"
proof -
  have o: "objs two_drops 0 = \<lparr>wavelength = 4, iWave = 3, rip_r = 2, rip_c = 2, mag = 10\<rparr>"
          "objs two_drops (Suc 0) = \<lparr>wavelength = 4, iWave = 3, rip_r = 2, rip_c = 2, mag = 7\<rparr>"
    and f: "F two_drops 2 = Some (numArray 5 0)"
    by (simp_all add: two_drops_def place_ripple_def pond_def fresh_model_def numArray2D_def
          Let_def)
  obtain b1 m1 where s1: "applyForce 0 two_drops = Inr (b1, m1)"
    and o1: "objs m1 (Suc 0) = objs two_drops (Suc 0)" and f1: "F m1 2 \<noteq> None"
    and c1: "cell_value (F m1) 2 2 = Some 10"
    by (simp add: applyForce_def o f Let_def cell_value_def)
  from f1 obtain row where "F m1 2 = Some row" by auto
  then have "F m1 (rip_r (objs m1 (Suc 0))) = Some row" and "wavelength (objs m1 (Suc 0)) \<noteq> 0"
    by (simp_all add: o o1)
  from applyForce_ok [OF this] obtain b2 m2 where s2: "applyForce (Suc 0) m1 = Inr (b2, m2)"
    by blast
  have "cell_value (F m2) 2 2 = Some (force_of (objs m1 (Suc 0)))"
    using applyForce_overwrites [OF s1 s2, of 2 2] by (simp add: o o1)
  then have "cell_value (F m2) 2 2 = Some 7"
    by (simp add: o o1 force_of_def)
  with s1 s2 c1 show ?thesis unfolding One_nat_def by blast
qed

subsection \<open>The impulse of a whole lifetime\<close>

lemma sin_sum_zero: "(\<Sum>k<n. sin (real k / real n * pi * 2)) = 0"
proof (cases "n = 0")
  case True
  then show ?thesis by simp
next
  case False
  let ?f = "\<lambda>k. sin (real k / real n * pi * 2)"
  have mirror: "?f (n - i) = - ?f i" if "i \<in> {1..<n}" for i
  proof -
    from that have "real (n - i) = real n - real i" by (simp add: of_nat_diff)
    then have "real (n - i) / real n * pi * 2 = 2 * pi - real i / real n * pi * 2"
      using False by (simp add: field_simps)
    then show ?thesis by (simp add: sin_2pi_minus)
  qed
  have "sum ?f {1..<n} = (\<Sum>i\<in>{1..<n}. ?f (n + 1 - Suc i))"
    by (rule sum.atLeastLessThan_rev)
  also have "\<dots> = (\<Sum>i\<in>{1..<n}. - ?f i)"
    by (rule sum.cong) (use mirror in auto)
  also have "\<dots> = - sum ?f {1..<n}"
    by (simp add: sum_negf)
  finally have tail: "sum ?f {1..<n} = 0" by simp
  have "sum ?f {..<n} = sum ?f {0..<n}"
    by (simp add: atLeast0LessThan)
  also have "\<dots> = ?f 0 + sum ?f {1..<n}"
    using False by (simp add: sum.atLeast_Suc_lessThan)
  finally show ?thesis using tail by simp
qed

lemma total_force_snoc:
  "total_force (tr @ [(b, Some f)]) = map_option (\<lambda>s. s + f) (total_force tr)"
  by (induction tr rule: total_force.induct) (auto simp: option.map_comp o_def add.assoc)

lemma total_force_map:
  "total_force (map (\<lambda>k. (b k, Some (g k))) [0..<n]) = Some (\<Sum>k<n. g k)"
  by (induction n) (auto simp: total_force_snoc)

text \<open>
  Claim C7: over the \<open>w\<close> calls of its lifetime a ripple of resolved wavelength \<open>w \<ge> 1\<close> and
  peak magnitude \<open>mag\<close> writes the forces \<open>mag * sin (2 * pi * k / w)\<close>, \<open>k = 0, ..., w - 1\<close>,
  and in exact real arithmetic they add up to 0.
\<close>

theorem lifetime_force_sums_to_zero:
  assumes "wavelength (objs m a) = w" and "iWave (objs m a) = w" and "1 \<le> w"
      and "F m (rip_r (objs m a)) \<noteq> None"
  shows "\<exists>tr m1. applyForce_run (nat w) a m = Inr (tr, m1) \<and>
           map snd tr =
             map (\<lambda>k. Some (mag (objs m a) * sin (2 * pi * real k / real_of_int w))) [0..<nat w] \<and>
           total_force tr = Some 0"
proof -
  let ?g = "\<lambda>k. mag (objs m a) * sin (real k / real (nat w) * pi * 2)"
  let ?b = "\<lambda>k. iWave (objs m a) - int k - 1 \<noteq> 0"
  from assms have nz: "wavelength (objs m a) \<noteq> 0" by simp
  have f: "force_of ((objs m a)\<lparr>iWave := iWave (objs m a) - int k\<rparr>) = ?g k" for k
    using assms by (simp add: force_of_def)
  from applyForce_run_trace [OF nz assms(4), of "nat w"] obtain m1 where
    run: "applyForce_run (nat w) a m = Inr (map (\<lambda>k. (?b k, Some (?g k))) [0..<nat w], m1)"
    unfolding f by blast
  have "(\<Sum>k<nat w. ?g k) = mag (objs m a) * (\<Sum>k<nat w. sin (real k / real (nat w) * pi * 2))"
    by (simp add: sum_distrib_left)
  then have "total_force (map (\<lambda>k. (?b k, Some (?g k))) [0..<nat w]) = Some 0"
    by (simp only: total_force_map sin_sum_zero mult_zero_right)
  moreover have "map snd (map (\<lambda>k. (?b k, Some (?g k))) [0..<nat w]) =
      map (\<lambda>k. Some (mag (objs m a) * sin (2 * pi * real k / real_of_int w))) [0..<nat w]"
    using assms(3) by (simp add: o_def mult_ac)
  ultimately show ?thesis using run by blast
qed

theorem lifetime_force_sums_to_zero_witness:
  "\<exists>tr m1. applyForce_run 5 0 (snd (new_Ripple pond)) = Inr (tr, m1) \<and>
      map snd tr = map (\<lambda>k. Some (10 * sin (2 * pi * real k / 5))) [0..<5] \<and>
      total_force tr = Some 0"
  using lifetime_force_sums_to_zero [of "snd (new_Ripple pond)" 0 5] pond_F
  by (simp add: pond_ripple)


section \<open>Properties of modelStep\<close>

lemma index2_cell_value: "index2 X r c = Inr v \<longleftrightarrow> X r \<noteq> None \<and> cell_value X r c = v"
  by (auto simp: index2_def cell_value_def split: option.splits)

lemma assign2_effect:
  assumes "index2 X r0 c0 = Inr w"
  shows "\<exists>X1. assign2 X r0 c0 x = Inr X1 \<and>
           (\<forall>r c. index2 X1 r c = (if r = r0 \<and> c = c0 then Inr (Some x) else index2 X r c))"
  using assms by (auto simp: assign2_def index2_def split: option.splits)

lemma shaped_cell: "shaped rws cls X \<Longrightarrow> 0 \<le> r \<Longrightarrow> r < rws \<Longrightarrow> 0 \<le> c \<Longrightarrow> c < cls \<Longrightarrow>
    \<exists>v. index2 X r c = Inr (Some v)"
  by (simp add: shaped_def)

lemma Utils_mod_step_in_range:
  assumes "0 \<le> r" "r < n" "d = - 1 \<or> d = 0 \<or> d = 1"
  shows "\<exists>k. Utils_mod (r + d) n = Some k \<and> 0 \<le> k \<and> k < n"
proof (cases "r + d < 0")
  case True
  with assms have "r + d = - 1" by auto
  with assms show ?thesis by (simp add: Utils_mod_minus_one)
next
  case False
  with assms show ?thesis by (simp add: Utils_mod_nonneg)
qed

lemma getM_total:
  assumes sh: "shaped (rows m) (cols m) (M m)"
      and r: "0 \<le> r" "r < rows m" and c: "0 \<le> c" "c < cols m"
      and d: "dr = - 1 \<or> dr = 0 \<or> dr = 1" "dc = - 1 \<or> dc = 0 \<or> dc = 1"
  shows "\<exists>v. getM m (r + dr) (c + dc) = Inr v"
proof (cases "isTorus (conf m)")
  case True
  from Utils_mod_step_in_range [OF r d(1)] obtain k where
    k: "Utils_mod (r + dr) (rows m) = Some k" "0 \<le> k" "k < rows m" by blast
  from Utils_mod_step_in_range [OF c d(2)] obtain l where
    l: "Utils_mod (c + dc) (cols m) = Some l" "0 \<le> l" "l < cols m" by blast
  from shaped_cell [OF sh k(2,3) l(2,3)] show ?thesis
    using True k l by (auto simp: getM_def getter_def num_def)
next
  case False
  show ?thesis
  proof (cases "r + dr < 0 \<or> r + dr \<ge> rows m \<or> c + dc < 0 \<or> c + dc \<ge> cols m")
    case True
    with False show ?thesis by (simp add: getM_def getter_def num_def)
  next
    case in_grid: False
    then have "0 \<le> r + dr" "r + dr < rows m" "0 \<le> c + dc" "c + dc < cols m" by auto
    from shaped_cell [OF sh this] show ?thesis
      using False in_grid by (auto simp: getM_def getter_def num_def)
  qed
qed

lemma force_term_total:
  assumes sh: "shaped (rows m) (cols m) (M m)"
      and r: "0 \<le> r" "r < rows m" and c: "0 \<le> c" "c < cols m"
  shows "\<exists>ft. force_term m r c = Inr ft"
proof -
  note g = getM_total [OF sh r c]
  from shaped_cell [OF sh r c] obtain mv where mv: "index2 (M m) r c = Inr (Some mv)" by blast
  from g [of "- 1" "- 1"] obtain g1 where g1: "getM m (r - 1) (c - 1) = Inr g1" by auto
  from g [of 0 "- 1"] obtain g2 where g2: "getM m r (c - 1) = Inr g2" by auto
  from g [of 1 "- 1"] obtain g3 where g3: "getM m (r + 1) (c - 1) = Inr g3" by auto
  from g [of "- 1" 0] obtain g4 where g4: "getM m (r - 1) c = Inr g4" by auto
  from g [of 1 0] obtain g5 where g5: "getM m (r + 1) c = Inr g5" by auto
  from g [of "- 1" 1] obtain g6 where g6: "getM m (r - 1) (c + 1) = Inr g6" by auto
  from g [of 0 1] obtain g7 where g7: "getM m r (c + 1) = Inr g7" by auto
  from g [of 1 1] obtain g8 where g8: "getM m (r + 1) (c + 1) = Inr g8" by auto
  show ?thesis
    by (simp add: force_term_def bind_err_def num_def mv g1 g2 g3 g4 g5 g6 g7 g8)
qed

lemma cell_step_effect:
  assumes v: "index2 (V m) r c = Inr (Some v)" and mv: "index2 (M m) r c = Inr (Some mv)"
      and ft: "force_term m r c = Inr ft"
      and f: "index2 F0 r c = Inr (Some f)" "index2 (F m) r c = Inr (Some f)"
      and v0: "index2 V0 r c = Inr w1" and m0: "index2 M0 r c = Inr w2"
  shows "\<exists>s1. cell_step m (F0, V0, M0) r c = Inr s1 \<and>
               updated_on m (\<lambda>r1 c1. r1 = r \<and> c1 = c) (F0, V0, M0) s1"
proof -
  let ?d = "damping (conf m)"
  from assign2_effect [OF v0, of "v * (1 - ?d)"] obtain V1 where
    V1: "assign2 V0 r c (v * (1 - ?d)) = Inr V1"
        "\<And>r1 c1. index2 V1 r1 c1 = (if r1 = r \<and> c1 = c then Inr (Some (v * (1 - ?d))) else index2 V0 r1 c1)"
    by blast
  from assign2_effect [OF f(1), of "f + ft"] obtain F1 where
    F1: "assign2 F0 r c (f + ft) = Inr F1"
        "\<And>r1 c1. index2 F1 r1 c1 = (if r1 = r \<and> c1 = c then Inr (Some (f + ft)) else index2 F0 r1 c1)"
    by blast
  have V1rc: "index2 V1 r c = Inr (Some (v * (1 - ?d)))" by (simp add: V1(2))
  have F1rc: "index2 F1 r c = Inr (Some (f + ft))" by (simp add: F1(2))
  let ?nv = "v * (1 - ?d) + (f + ft) * FORCE_INFLUENCE"
  from assign2_effect [OF V1rc, of ?nv] obtain V2 where
    V2: "assign2 V1 r c ?nv = Inr V2"
        "\<And>r1 c1. index2 V2 r1 c1 = (if r1 = r \<and> c1 = c then Inr (Some ?nv) else index2 V1 r1 c1)"
    by blast
  have V2rc: "index2 V2 r c = Inr (Some ?nv)" by (simp add: V2(2))
  from assign2_effect [OF m0, of "mv + ?nv"] obtain M1 where
    M1: "assign2 M0 r c (mv + ?nv) = Inr M1"
        "\<And>r1 c1. index2 M1 r1 c1 = (if r1 = r \<and> c1 = c then Inr (Some (mv + ?nv)) else index2 M0 r1 c1)"
    by blast
  from assign2_effect [OF F1rc, of 0] obtain F2 where
    F2: "assign2 F1 r c 0 = Inr F2"
        "\<And>r1 c1. index2 F2 r1 c1 = (if r1 = r \<and> c1 = c then Inr (Some 0) else index2 F1 r1 c1)"
    by blast
  have step: "cell_step m (F0, V0, M0) r c = Inr (F2, V2, M1)"
    by (simp add: cell_step_def bind_err_def num_def v mv ft f V1(1) F1(1) V1rc F1rc V2(1) V2rc M1(1) F2(1))
  have nv: "next_V m r c = Some ?nv"
    using v f(2) ft by (simp add: next_V_def index2_cell_value)
  have nm: "next_M m r c = Some (mv + ?nv)"
    using mv nv by (simp add: next_M_def index2_cell_value)
  have "updated_on m (\<lambda>r1 c1. r1 = r \<and> c1 = c) (F0, V0, M0) (F2, V2, M1)"
    by (simp add: updated_on_def F2(2) F1(2) V2(2) V1(2) M1(2) nv nm)
  with step show ?thesis by blast
qed

lemma updated_on_trans:
  assumes "updated_on m P s0 s" and "updated_on m Q s s1"
  shows "updated_on m (\<lambda>r c. P r c \<or> Q r c) s0 s1"
  using assms by (cases s0, cases s, cases s1) (simp add: updated_on_def)

lemma updated_on_refl: "updated_on m (\<lambda>r c. False) s s"
  by (cases s) (simp add: updated_on_def)

lemma grid_ok_cells:
  assumes "grid_ok m" "0 \<le> r" "r < rows m" "0 \<le> c" "c < cols m"
  shows "\<exists>f v v1 mv mv1. index2 (F m) r c = Inr (Some f) \<and> index2 (V m) r c = Inr (Some v) \<and>
           index2 (V' m) r c = Inr (Some v1) \<and> index2 (M m) r c = Inr (Some mv) \<and>
           index2 (M' m) r c = Inr (Some mv1)"
  using assms by (simp add: grid_ok_def shaped_def)

lemma col_loop_updates:
  assumes "grid_ok m" and "0 \<le> r" and "r < rows m" and "0 \<le> c"
      and "updated_on m P (F m, V' m, M' m) s" and "\<forall>c1. c \<le> c1 \<longrightarrow> \<not> P r c1"
  shows "\<exists>s1. col_loop m r c s = Inr s1 \<and>
           updated_on m (\<lambda>r1 c1. P r1 c1 \<or> (r1 = r \<and> c \<le> c1 \<and> c1 < cols m)) (F m, V' m, M' m) s1"
  using assms
proof (induction m r c s arbitrary: P rule: col_loop.induct)
  case (1 m r c s)
  show ?case
  proof (cases "c < cols m")
    case False
    then have "(\<lambda>r1 c1. P r1 c1 \<or> (r1 = r \<and> c \<le> c1 \<and> c1 < cols m)) = P"
      by (intro ext) auto
    with False "1.prems"(5) show ?thesis by simp
  next
    case True
    obtain F0 V0 M0 where s: "s = (F0, V0, M0)" by (cases s)
    from grid_ok_cells [OF "1.prems"(1-4) True] obtain f v v1 mv mv1 where
      cells: "index2 (F m) r c = Inr (Some f)" "index2 (V m) r c = Inr (Some v)"
             "index2 (V' m) r c = Inr (Some v1)" "index2 (M m) r c = Inr (Some mv)"
             "index2 (M' m) r c = Inr (Some mv1)"
      by blast
    from "1.prems"(1) have shM: "shaped (rows m) (cols m) (M m)" by (simp add: grid_ok_def)
    from force_term_total [OF shM "1.prems"(2-4) True] obtain ft where
      ft: "force_term m r c = Inr ft" by blast
    from "1.prems"(6) have notP: "\<not> P r c" by simp
    with "1.prems"(5) have cur: "index2 F0 r c = Inr (Some f)" "index2 V0 r c = Inr (Some v1)"
        "index2 M0 r c = Inr (Some mv1)"
      by (simp_all add: updated_on_def s cells)
    from cell_step_effect [OF cells(2) cells(4) ft cur(1) cells(1) cur(2) cur(3)] obtain s1 where
      step: "cell_step m s r c = Inr s1"
      and upd: "updated_on m (\<lambda>r1 c1. r1 = r \<and> c1 = c) s s1"
      unfolding s by blast
    let ?P1 = "\<lambda>r1 c1. P r1 c1 \<or> (r1 = r \<and> c1 = c)"
    have inv: "updated_on m ?P1 (F m, V' m, M' m) s1"
      by (rule updated_on_trans [OF "1.prems"(5) upd])
    have free: "\<forall>c1. c + 1 \<le> c1 \<longrightarrow> \<not> ?P1 r c1"
      using "1.prems"(6) by auto
    have c1: "0 \<le> c + 1" using "1.prems"(4) by simp
    from "1.IH" [OF True step "1.prems"(1-3) c1 inv free] obtain s2 where
      loop: "col_loop m r (c + 1) s1 = Inr s2"
      and res: "updated_on m (\<lambda>r1 c1. ?P1 r1 c1 \<or> (r1 = r \<and> c + 1 \<le> c1 \<and> c1 < cols m))
                  (F m, V' m, M' m) s2"
      by blast
    have "(\<lambda>r1 c1. ?P1 r1 c1 \<or> (r1 = r \<and> c + 1 \<le> c1 \<and> c1 < cols m)) =
          (\<lambda>r1 c1. P r1 c1 \<or> (r1 = r \<and> c \<le> c1 \<and> c1 < cols m))"
      using True by (intro ext) auto
    with res have "updated_on m (\<lambda>r1 c1. P r1 c1 \<or> (r1 = r \<and> c \<le> c1 \<and> c1 < cols m))
                  (F m, V' m, M' m) s2"
      by simp
    with True step loop show ?thesis by simp
  qed
qed

lemma row_loop_updates:
  assumes "grid_ok m" and "0 \<le> r"
      and "updated_on m P (F m, V' m, M' m) s" and "\<forall>r1 c1. r \<le> r1 \<longrightarrow> \<not> P r1 c1"
  shows "\<exists>s1. row_loop m r s = Inr s1 \<and>
           updated_on m (\<lambda>r1 c1. P r1 c1 \<or> (r \<le> r1 \<and> r1 < rows m \<and> 0 \<le> c1 \<and> c1 < cols m))
             (F m, V' m, M' m) s1"
  using assms
proof (induction m r s arbitrary: P rule: row_loop.induct)
  case (1 m r s)
  show ?case
  proof (cases "r < rows m")
    case False
    then have "(\<lambda>r1 c1. P r1 c1 \<or> (r \<le> r1 \<and> r1 < rows m \<and> 0 \<le> c1 \<and> c1 < cols m)) = P"
      by (intro ext) auto
    with False "1.prems"(3) show ?thesis by simp
  next
    case True
    have free0: "\<forall>c1. 0 \<le> c1 \<longrightarrow> \<not> P r c1" using "1.prems"(4) by simp
    let ?P1 = "\<lambda>r1 c1. P r1 c1 \<or> (r1 = r \<and> 0 \<le> c1 \<and> c1 < cols m)"
    from col_loop_updates [OF "1.prems"(1,2) True _ "1.prems"(3) free0] obtain s1 where
      cols: "col_loop m r 0 s = Inr s1" and inv: "updated_on m ?P1 (F m, V' m, M' m) s1"
      by auto
    have free: "\<forall>r1 c1. r + 1 \<le> r1 \<longrightarrow> \<not> ?P1 r1 c1"
      using "1.prems"(4) by auto
    have r1: "0 \<le> r + 1" using "1.prems"(2) by simp
    from "1.IH" [OF True cols "1.prems"(1) r1 inv free] obtain s2 where
      loop: "row_loop m (r + 1) s1 = Inr s2"
      and res: "updated_on m
                  (\<lambda>r1 c1. ?P1 r1 c1 \<or> (r + 1 \<le> r1 \<and> r1 < rows m \<and> 0 \<le> c1 \<and> c1 < cols m))
                  (F m, V' m, M' m) s2"
      by blast
    have "(\<lambda>r1 c1. ?P1 r1 c1 \<or> (r + 1 \<le> r1 \<and> r1 < rows m \<and> 0 \<le> c1 \<and> c1 < cols m)) =
          (\<lambda>r1 c1. P r1 c1 \<or> (r \<le> r1 \<and> r1 < rows m \<and> 0 \<le> c1 \<and> c1 < cols m))"
      using True by (intro ext) auto
    with res have "updated_on m
          (\<lambda>r1 c1. P r1 c1 \<or> (r \<le> r1 \<and> r1 < rows m \<and> 0 \<le> c1 \<and> c1 < cols m))
          (F m, V' m, M' m) s2"
      by simp
    with True cols loop show ?thesis by simp
  qed
qed

lemma modelStep_cells:
  assumes "grid_ok m"
  shows "\<exists>F1 V1 M1. modelStep m = Inr (m\<lparr>F := F1, V := V1, V' := V m, M := M1, M' := M m\<rparr>) \<and>
           updated_on m (\<lambda>r c. 0 \<le> r \<and> r < rows m \<and> 0 \<le> c \<and> c < cols m) (F m, V' m, M' m) (F1, V1, M1)"
proof -
  have start: "updated_on m (\<lambda>r c. False) (F m, V' m, M' m) (F m, V' m, M' m)"
    by (rule updated_on_refl)
  have z: "(0::int) \<le> 0" by simp
  have free: "\<forall>r1 c1. (0::int) \<le> r1 \<longrightarrow> \<not> False" by simp
  from row_loop_updates [OF assms z start free] obtain s1 where
    loop: "row_loop m 0 (F m, V' m, M' m) = Inr s1"
    and res: "updated_on m (\<lambda>r1 c1. False \<or> (0 \<le> r1 \<and> r1 < rows m \<and> 0 \<le> c1 \<and> c1 < cols m))
                (F m, V' m, M' m) s1"
    by blast
  obtain F1 V1 M1 where s1: "s1 = (F1, V1, M1)" by (cases s1)
  have "(\<lambda>r1 c1. False \<or> (0 \<le> r1 \<and> r1 < rows m \<and> 0 \<le> c1 \<and> c1 < cols m)) =
        (\<lambda>r c. 0 \<le> r \<and> r < rows m \<and> 0 \<le> c \<and> c < cols m)"
    by simp
  with res have "updated_on m (\<lambda>r c. 0 \<le> r \<and> r < rows m \<and> 0 \<le> c \<and> c < cols m) (F m, V' m, M' m) (F1, V1, M1)"
    unfolding s1 by simp
  moreover have "modelStep m = Inr (m\<lparr>F := F1, V := V1, V' := V m, M := M1, M' := M m\<rparr>)"
    unfolding modelStep_def loop s1 by simp
  ultimately show ?thesis by blast
qed

lemma zero_on_shaped: "zero_on rws cls X \<Longrightarrow> shaped rws cls X"
  by (simp add: zero_on_def shaped_def)

lemma zero_on_numArray2D: "zero_on rws cls (numArray2D rws cls 0)"
  by (simp add: zero_on_def numArray2D_def numArray_def index2_def)

lemma getM_zero:
  assumes z: "zero_on (rows m) (cols m) (M m)"
      and r: "0 \<le> r" "r < rows m" and c: "0 \<le> c" "c < cols m"
      and d: "dr = - 1 \<or> dr = 0 \<or> dr = 1" "dc = - 1 \<or> dc = 0 \<or> dc = 1"
  shows "getM m (r + dr) (c + dc) = Inr 0"
proof (cases "isTorus (conf m)")
  case True
  from Utils_mod_step_in_range [OF r d(1)] obtain k where
    k: "Utils_mod (r + dr) (rows m) = Some k" "0 \<le> k" "k < rows m" by blast
  from Utils_mod_step_in_range [OF c d(2)] obtain l where
    l: "Utils_mod (c + dc) (cols m) = Some l" "0 \<le> l" "l < cols m" by blast
  from z k l have "index2 (M m) k l = Inr (Some 0)" by (simp add: zero_on_def)
  then show ?thesis
    using True k l by (simp add: getM_def getter_def num_def)
next
  case False
  show ?thesis
  proof (cases "r + dr < 0 \<or> r + dr \<ge> rows m \<or> c + dc < 0 \<or> c + dc \<ge> cols m")
    case True
    with False show ?thesis by (simp add: getM_def getter_def num_def)
  next
    case in_grid: False
    with z have "index2 (M m) (r + dr) (c + dc) = Inr (Some 0)" by (simp add: zero_on_def)
    then show ?thesis
      using False in_grid by (simp add: getM_def getter_def num_def)
  qed
qed

lemma force_term_zero:
  assumes z: "zero_on (rows m) (cols m) (M m)"
      and r: "0 \<le> r" "r < rows m" and c: "0 \<le> c" "c < cols m"
  shows "force_term m r c = Inr 0"
proof -
  note g = getM_zero [OF z r c]
  from z r c have mv: "index2 (M m) r c = Inr (Some 0)" by (simp add: zero_on_def)
  from g [of "- 1" "- 1"] have g1: "getM m (r - 1) (c - 1) = Inr 0" by simp
  from g [of 0 "- 1"] have g2: "getM m r (c - 1) = Inr 0" by simp
  from g [of 1 "- 1"] have g3: "getM m (r + 1) (c - 1) = Inr 0" by simp
  from g [of "- 1" 0] have g4: "getM m (r - 1) c = Inr 0" by simp
  from g [of 1 0] have g5: "getM m (r + 1) c = Inr 0" by simp
  from g [of "- 1" 1] have g6: "getM m (r - 1) (c + 1) = Inr 0" by simp
  from g [of 0 1] have g7: "getM m r (c + 1) = Inr 0" by simp
  from g [of 1 1] have g8: "getM m (r + 1) (c + 1) = Inr 0" by simp
  show ?thesis
    by (simp add: force_term_def bind_err_def num_def mv g1 g2 g3 g4 g5 g6 g7 g8)
qed

lemma modelStep_still:
  assumes zF: "zero_on (rows m) (cols m) (F m)" and zV: "zero_on (rows m) (cols m) (V m)"
      and zM: "zero_on (rows m) (cols m) (M m)"
      and sV: "shaped (rows m) (cols m) (V' m)" and sM: "shaped (rows m) (cols m) (M' m)"
  shows "\<exists>m1. modelStep m = Inr m1 \<and> rows m1 = rows m \<and> cols m1 = cols m \<and>
           zero_on (rows m) (cols m) (F m1) \<and> zero_on (rows m) (cols m) (V m1) \<and>
           zero_on (rows m) (cols m) (M m1) \<and> shaped (rows m) (cols m) (V' m1) \<and>
           shaped (rows m) (cols m) (M' m1)"
proof -
  have ok: "grid_ok m"
    using assms by (simp add: grid_ok_def zero_on_shaped)
  from modelStep_cells [OF ok] obtain F1 V1 M1 where
    step: "modelStep m = Inr (m\<lparr>F := F1, V := V1, V' := V m, M := M1, M' := M m\<rparr>)"
    and upd: "updated_on m (\<lambda>r c. 0 \<le> r \<and> r < rows m \<and> 0 \<le> c \<and> c < cols m)
                (F m, V' m, M' m) (F1, V1, M1)"
    by blast
  have nv: "next_V m r c = Some 0" and nm: "next_M m r c = Some 0"
    if "0 \<le> r" "r < rows m" "0 \<le> c" "c < cols m" for r c
  proof -
    from zF zV zM that have "cell_value (F m) r c = Some 0" "cell_value (V m) r c = Some 0"
        "cell_value (M m) r c = Some 0"
      by (simp_all add: zero_on_def index2_cell_value)
    then show "next_V m r c = Some 0" and "next_M m r c = Some 0"
      by (simp_all add: next_V_def next_M_def force_term_zero [OF zM that])
  qed
  from upd nv nm have "zero_on (rows m) (cols m) F1" "zero_on (rows m) (cols m) V1"
      "zero_on (rows m) (cols m) M1"
    by (simp_all add: updated_on_def zero_on_def)
  with step zV zM show ?thesis
    by (simp add: zero_on_shaped)
qed


text \<open>
  Claim C2: when the force, velocity and magnitude matrices are exactly 0 on the whole grid
  (and the two update matrices have the grid's shape), any number of \<open>modelStep\<close> calls
  succeeds and leaves magnitude, force and velocity exactly 0 in every cell. \<open>modelStep\<close>
  does not look at the ripples, so nothing is assumed about them.
\<close>

theorem still_grid_stays_still:
  assumes "zero_on (rows m) (cols m) (F m)" and "zero_on (rows m) (cols m) (V m)"
      and "zero_on (rows m) (cols m) (M m)"
      and "shaped (rows m) (cols m) (V' m)" and "shaped (rows m) (cols m) (M' m)"
  shows "\<exists>m1. modelSteps n m = Inr m1 \<and> zero_on (rows m) (cols m) (M m1) \<and>
           zero_on (rows m) (cols m) (F m1) \<and> zero_on (rows m) (cols m) (V m1)"
  using assms
proof (induction n arbitrary: m)
  case 0
  then show ?case by simp
next
  case (Suc n)
  from modelStep_still [OF Suc.prems] obtain m1 where
    step: "modelStep m = Inr m1" and dims: "rows m1 = rows m" "cols m1 = cols m"
    and still: "zero_on (rows m) (cols m) (F m1)" "zero_on (rows m) (cols m) (V m1)"
      "zero_on (rows m) (cols m) (M m1)" "shaped (rows m) (cols m) (V' m1)"
      "shaped (rows m) (cols m) (M' m1)"
    by blast
  from Suc.IH [of m1] still dims show ?case
    by (simp add: step)
qed

lemma pond_dims: "rows pond = 5" "cols pond = 5"
  by (simp_all add: pond_def fresh_model_def)

lemma pond_zero: "zero_on 5 5 (F pond)" "zero_on 5 5 (V pond)" "zero_on 5 5 (M pond)"
   "zero_on 5 5 (V' pond)" "zero_on 5 5 (M' pond)"
  by (simp_all add: pond_def fresh_model_def zero_on_numArray2D)


theorem still_grid_stays_still_witness:
  "\<exists>m1. modelSteps 3 pond = Inr m1 \<and> zero_on 5 5 (M m1) \<and> zero_on 5 5 (F m1) \<and> zero_on 5 5 (V m1)"
  using still_grid_stays_still [of pond 3] pond_zero by (simp add: pond_dims zero_on_shaped)

lemma puddle_fields:
  "rows (puddle mv v) = 1" "cols (puddle mv v) = 1" "damping (conf (puddle mv v)) = 1"
  "isTorus (conf (puddle mv v)) = False"
  "F (puddle mv v) = numArray2D 1 1 0" "V (puddle mv v) = matrix_of [[v]]"
  "M (puddle mv v) = matrix_of [[mv]]"
  "V' (puddle mv v) = numArray2D 1 1 0" "M' (puddle mv v) = numArray2D 1 1 0"
  by (simp_all add: puddle_def fresh_model_def pond_conf_def)

lemma puddle_ok: "grid_ok (puddle mv v)"
  by (simp add: grid_ok_def puddle_fields zero_on_shaped zero_on_numArray2D shaped_matrix_of)

lemma puddle_force: "force_term (puddle mv v) 0 0 = Inr (- mv * (4 + 4 * pi))"
  by (simp add: force_term_def bind_err_def num_def getM_def getter_def puddle_fields index2_def
        matrix_of_def row_of_def)

lemma puddle_next_V: "next_V (puddle mv v) 0 0 = Some (- mv * (4 + 4 * pi) / 10)"
  by (simp add: next_V_def puddle_force puddle_fields cell_value_def matrix_of_def row_of_def
        numArray2D_def numArray_def FORCE_INFLUENCE_def)

text \<open>
  Claim C4 says that with damping 1 and no ripples every velocity is exactly 0 after the
  next tick. That fails as soon as the magnitudes are not flat: on the 1 x 1 grid with
  magnitude 1 and velocity 1 the velocity after \<open>modelStep\<close> is \<open>-(4 + 4 pi) / 10\<close>, because
  the force of the same tick is added after the damping.
\<close>

theorem full_damping_velocity_not_zero:
  "\<exists>m1. modelStep (puddle 1 1) = Inr m1 \<and> cell_value (V m1) 0 0 = Some (- (4 + 4 * pi) / 10) \<and>
         - (4 + 4 * pi) / 10 \<noteq> 0"
proof -
  from modelStep_cells [OF puddle_ok, of 1 1] obtain F1 V1 M1 where
    step: "modelStep (puddle 1 1) =
             Inr ((puddle 1 1)\<lparr>F := F1, V := V1, V' := V (puddle 1 1), M := M1, M' := M (puddle 1 1)\<rparr>)"
    and upd: "updated_on (puddle 1 1) (\<lambda>r c. 0 \<le> r \<and> r < rows (puddle 1 1) \<and> 0 \<le> c \<and> c < cols (puddle 1 1))
                (F (puddle 1 1), V' (puddle 1 1), M' (puddle 1 1)) (F1, V1, M1)"
    by blast
  from upd have "index2 V1 0 0 = Inr (next_V (puddle 1 1) 0 0)"
    by (simp add: updated_on_def puddle_fields)
  then have "cell_value V1 0 0 = Some (- (4 + 4 * pi) / 10)"
    by (simp add: index2_cell_value puddle_next_V)
  moreover have "- (4 + 4 * pi) / 10 \<noteq> (0::real)"
  proof -
    have "0 < 4 + 4 * pi" using pi_gt_zero by linarith
    then show ?thesis by simp
  qed
  ultimately show ?thesis using step by simp
qed

text \<open>
  Claim C4, amended: with damping 1 the velocity carried over from the previous tick is
  removed entirely. After \<open>modelStep\<close> the velocity of every cell is \<open>FORCE_INFLUENCE\<close> times
  the force on the cell in that tick (the pending force plus the force term of the
  magnitudes), whatever the velocity was before; it is exactly 0 on the whole grid when
  forces and magnitudes are 0.
\<close>

theorem full_damping_drops_prior_velocity:
  assumes "grid_ok m" and "damping (conf m) = 1"
  shows "\<exists>m1. modelStep m = Inr m1 \<and>
           (\<forall>r\<in>{0..<rows m}. \<forall>c\<in>{0..<cols m}. \<exists>f ft.
               cell_value (F m) r c = Some f \<and> force_term m r c = Inr ft \<and>
               cell_value (V m1) r c = Some ((f + ft) * FORCE_INFLUENCE)) \<and>
           (zero_on (rows m) (cols m) (F m) \<and> zero_on (rows m) (cols m) (M m) \<longrightarrow>
               zero_on (rows m) (cols m) (V m1))"
proof -
  from modelStep_cells [OF assms(1)] obtain F1 V1 M1 where
    step: "modelStep m = Inr (m\<lparr>F := F1, V := V1, V' := V m, M := M1, M' := M m\<rparr>)"
    and upd: "updated_on m (\<lambda>r c. 0 \<le> r \<and> r < rows m \<and> 0 \<le> c \<and> c < cols m)
                (F m, V' m, M' m) (F1, V1, M1)"
    by blast
  have cellwise: "\<exists>f ft. cell_value (F m) r c = Some f \<and> force_term m r c = Inr ft \<and>
               cell_value V1 r c = Some ((f + ft) * FORCE_INFLUENCE) \<and>
               index2 V1 r c = Inr (Some ((f + ft) * FORCE_INFLUENCE))"
    if "0 \<le> r" "r < rows m" "0 \<le> c" "c < cols m" for r c
  proof -
    from grid_ok_cells [OF assms(1) that] obtain f v where
      cells: "index2 (F m) r c = Inr (Some f)" "index2 (V m) r c = Inr (Some v)" by blast
    from assms(1) have "shaped (rows m) (cols m) (M m)" by (simp add: grid_ok_def)
    from force_term_total [OF this that] obtain ft where ft: "force_term m r c = Inr ft" by blast
    have "next_V m r c = Some ((f + ft) * FORCE_INFLUENCE)"
      using cells ft assms(2) by (simp add: next_V_def index2_cell_value)
    moreover from upd that have "index2 V1 r c = Inr (next_V m r c)"
      by (simp add: updated_on_def)
    ultimately show ?thesis
      using cells ft by (auto simp: index2_cell_value)
  qed
  have "zero_on (rows m) (cols m) V1"
    if z: "zero_on (rows m) (cols m) (F m)" "zero_on (rows m) (cols m) (M m)"
    unfolding zero_on_def
  proof (intro ballI)
    fix r c assume "r \<in> {0..<rows m}" "c \<in> {0..<cols m}"
    then have rc: "0 \<le> r" "r < rows m" "0 \<le> c" "c < cols m" by auto
    from cellwise [OF rc] obtain f ft where
      c: "cell_value (F m) r c = Some f" "force_term m r c = Inr ft"
         "index2 V1 r c = Inr (Some ((f + ft) * FORCE_INFLUENCE))" by blast
    from z(1) rc c(1) have "f = 0" by (simp add: zero_on_def index2_cell_value)
    moreover from force_term_zero [OF z(2) rc] c(2) have "ft = 0" by simp
    ultimately show "index2 V1 r c = Inr (Some 0)" using c(3) by simp
  qed
  note zero_case = this
  let ?m1 = "m\<lparr>F := F1, V := V1, V' := V m, M := M1, M' := M m\<rparr>"
  have "\<forall>r\<in>{0..<rows m}. \<forall>c\<in>{0..<cols m}. \<exists>f ft.
          cell_value (F m) r c = Some f \<and> force_term m r c = Inr ft \<and>
          cell_value (V ?m1) r c = Some ((f + ft) * FORCE_INFLUENCE)"
  proof (intro ballI)
    fix r c assume "r \<in> {0..<rows m}" "c \<in> {0..<cols m}"
    then have rc: "0 \<le> r" "r < rows m" "0 \<le> c" "c < cols m" by auto
    from cellwise [OF rc]
    show "\<exists>f ft. cell_value (F m) r c = Some f \<and> force_term m r c = Inr ft \<and>
            cell_value (V ?m1) r c = Some ((f + ft) * FORCE_INFLUENCE)"
      by auto
  qed
  moreover have "zero_on (rows m) (cols m) (F m) \<and> zero_on (rows m) (cols m) (M m) \<longrightarrow>
      zero_on (rows m) (cols m) (V ?m1)"
    using zero_case by simp
  ultimately show ?thesis using step by blast
qed

theorem full_damping_drops_prior_velocity_witness:
  "\<exists>m1. modelStep (puddle 0 1) = Inr m1 \<and> cell_value (V (puddle 0 1)) 0 0 = Some 1 \<and>
         cell_value (V m1) 0 0 = Some 0"
proof -
  from full_damping_drops_prior_velocity [OF puddle_ok, of 0 1] obtain m1 where
    step: "modelStep (puddle 0 1) = Inr m1"
    and cells: "\<forall>r\<in>{0..<1}. \<forall>c\<in>{0..<1}. \<exists>f ft.
               cell_value (F (puddle 0 1)) r c = Some f \<and> force_term (puddle 0 1) r c = Inr ft \<and>
               cell_value (V m1) r c = Some ((f + ft) * FORCE_INFLUENCE)"
    by (auto simp: puddle_fields)
  from cells have "\<exists>f ft. cell_value (F (puddle 0 1)) 0 0 = Some f \<and> force_term (puddle 0 1) 0 0 = Inr ft \<and>
               cell_value (V m1) 0 0 = Some ((f + ft) * FORCE_INFLUENCE)"
    by simp
  then have "cell_value (V m1) 0 0 = Some 0"
    by (auto simp: puddle_force puddle_fields cell_value_def numArray2D_def numArray_def)
  moreover have "cell_value (V (puddle 0 1)) 0 0 = Some 1"
    by (simp add: puddle_fields cell_value_def matrix_of_def row_of_def)
  ultimately show ?thesis using step by blast
qed


section \<open>Properties of genForces\<close>

lemma applyForce_Inr:
  assumes "applyForce a m = Inr (b, m1)"
  shows "b = (iWave (objs m a) \<noteq> 1)"
    and "objs m1 = (objs m)(a := (objs m a)\<lparr>iWave := iWave (objs m a) - 1\<rparr>)"
    and "arrays m1 = arrays m" and "nobjs m1 = nobjs m"
    and "ripples m1 = ripples m" and "ripples' m1 = ripples' m" and "nRipples m1 = nRipples m"
  using assms
  by (auto simp: applyForce_def Let_def split: option.splits if_splits)

lemma js_load_store_other: "k \<noteq> j \<Longrightarrow> j \<le> length xs \<Longrightarrow> js_load (js_store xs j v) k = js_load xs k"
  by (auto simp: js_load_def js_store_def nth_append)

lemma take_js_store: "j \<le> length xs \<Longrightarrow> take (Suc j) (js_store xs j v) = take j xs @ [v]"
  by (auto simp: js_store_def take_Suc_conv_app_nth)

lemma take_js_store_same: "j \<le> length xs \<Longrightarrow> take j (js_store xs j v) = take j xs"
  by (auto simp: js_store_def)

lemma length_js_store: "j \<le> length xs \<Longrightarrow> Suc j \<le> length (js_store xs j v)"
  by (auto simp: js_store_def)

lemma compact_loop_spec:
  assumes "compact_loop src dst n i j m = Inr (j1, m1)"
      and "j \<le> i" and "i \<le> n" and "length as = n" and "distinct as"
      and "\<forall>k. i \<le> k \<and> k < n \<longrightarrow> js_load (arrays m src) k = Some (as ! k)"
      and "j \<le> length (arrays m dst)"
  shows "take j1 (arrays m1 dst) =
           take j (arrays m dst) @ map Some (filter (\<lambda>a. iWave (objs m a) \<noteq> 1) (drop i as)) \<and>
         j1 \<le> length (arrays m1 dst) \<and>
         j1 = j + length (filter (\<lambda>a. iWave (objs m a) \<noteq> 1) (drop i as)) \<and>
         (\<forall>a. objs m1 a = (if a \<in> set (drop i as) then (objs m a)\<lparr>iWave := iWave (objs m a) - 1\<rparr>
                            else objs m a)) \<and>
         nobjs m1 = nobjs m \<and> ripples m1 = ripples m \<and> ripples' m1 = ripples' m"
  using assms
proof (induction src dst n i j m rule: compact_loop.induct)
  case (1 src dst n i j m)
  let ?P = "\<lambda>a. iWave (objs m a) \<noteq> 1"
  show ?case
  proof (cases "i < n")
    case False
    with "1.prems" show ?thesis by simp
  next
    case True
    let ?a = "as ! i"
    let ?rest = "drop (Suc i) as"
    from "1.prems"(6) True have ld: "js_load (arrays m src) i = Some ?a" by simp
    from "1.prems"(1) True ld obtain b m0 where ap: "applyForce ?a m = Inr (b, m0)"
      by (auto split: sum.splits)
    note fr = applyForce_Inr [OF ap]
    have dr: "drop i as = ?a # ?rest"
      using True "1.prems"(4) by (simp add: Cons_nth_drop_Suc)
    have notin: "?a \<notin> set ?rest"
      using "1.prems"(5) dr by (metis distinct.simps(2) distinct_drop)
    have same_filter: "filter (\<lambda>a. iWave (objs m0 a) \<noteq> 1) ?rest = filter ?P ?rest"
      by (rule filter_cong) (use notin fr(2) in auto)
    have objs_final: "(if a \<in> set ?rest
            then (objs m0 a)\<lparr>iWave := iWave (objs m0 a) - 1\<rparr> else objs m0 a) =
          (if a \<in> set (drop i as) then (objs m a)\<lparr>iWave := iWave (objs m a) - 1\<rparr> else objs m a)"
      for a
      using notin by (auto simp: dr fr(2))
    show ?thesis
    proof (cases b)
      case False
      with "1.prems"(1) True ld ap
      have rec: "compact_loop src dst n (i + 1) j m0 = Inr (j1, m1)" by simp
      have ents: "\<forall>k. i + 1 \<le> k \<and> k < n \<longrightarrow> js_load (arrays m0 src) k = Some (as ! k)"
        using "1.prems"(6) by (simp add: fr(3))
      have ji: "j \<le> i + 1" "i + 1 \<le> n" and jl: "j \<le> length (arrays m0 dst)"
        using "1.prems"(2,7) True by (simp_all add: fr(3))
      note ih = "1.IH"(2) [OF True ld ap refl False rec ji "1.prems"(4,5) ents jl,
                           unfolded Suc_eq_plus1 [symmetric]]
      from ih
      have r1: "take j1 (arrays m1 dst) =
                  take j (arrays m0 dst) @ map Some (filter (\<lambda>a. iWave (objs m0 a) \<noteq> 1) ?rest)"
        and r2: "j1 \<le> length (arrays m1 dst)"
        and r3: "j1 = j + length (filter (\<lambda>a. iWave (objs m0 a) \<noteq> 1) ?rest)"
        and r4: "\<And>a. objs m1 a = (if a \<in> set ?rest
                    then (objs m0 a)\<lparr>iWave := iWave (objs m0 a) - 1\<rparr> else objs m0 a)"
        and r5: "nobjs m1 = nobjs m0" "ripples m1 = ripples m0" "ripples' m1 = ripples' m0"
        by blast+
      from False fr(1) have fl: "filter ?P (drop i as) = filter ?P ?rest"
        by (simp add: dr)
      show ?thesis
        unfolding fl
        using r1 r2 r3 r4 r5 by (simp add: same_filter objs_final fr(3-6))
    next
      case alive: True
      let ?m2 = "m0\<lparr>arrays := (arrays m0)(dst := js_store (arrays m0 dst) j (js_load (arrays m0 src) i))\<rparr>"
      from "1.prems"(1) True ld ap alive
      have rec: "compact_loop src dst n (i + 1) (j + 1) ?m2 = Inr (j1, m1)" by simp
      have st: "arrays ?m2 dst = js_store (arrays m dst) j (Some ?a)"
        by (simp add: fr(3) ld)
      have ents: "\<forall>k. i + 1 \<le> k \<and> k < n \<longrightarrow> js_load (arrays ?m2 src) k = Some (as ! k)"
        using "1.prems"(6,2,7) by (auto simp: fr(3) js_load_store_other)
      have jl: "j + 1 \<le> length (arrays ?m2 dst)"
        unfolding st using length_js_store [OF "1.prems"(7)] by simp
      have ji: "j + 1 \<le> i + 1" "i + 1 \<le> n"
        using "1.prems"(2) True by simp_all
      have o2: "objs ?m2 = objs m0" by simp
      have tk: "take (Suc j) (arrays ?m2 dst) = take j (arrays m dst) @ [Some ?a]"
        unfolding st using take_js_store [OF "1.prems"(7)] by simp
      note ih = "1.IH"(1) [OF True ld ap refl alive rec ji "1.prems"(4,5) ents jl,
                           unfolded Suc_eq_plus1 [symmetric] tk o2]
      from ih
      have r1: "take j1 (arrays m1 dst) =
                  (take j (arrays m dst) @ [Some ?a]) @
                  map Some (filter (\<lambda>a. iWave (objs m0 a) \<noteq> 1) ?rest)"
        and r2: "j1 \<le> length (arrays m1 dst)"
        and r3: "j1 = Suc j + length (filter (\<lambda>a. iWave (objs m0 a) \<noteq> 1) ?rest)"
        and r4: "\<And>a. objs m1 a = (if a \<in> set ?rest
                    then (objs m0 a)\<lparr>iWave := iWave (objs m0 a) - 1\<rparr> else objs m0 a)"
        and r5: "nobjs m1 = nobjs ?m2" "ripples m1 = ripples ?m2" "ripples' m1 = ripples' ?m2"
        by blast+
      from alive fr(1) have fl: "filter ?P (drop i as) = ?a # filter ?P ?rest"
        by (simp add: dr)
      show ?thesis
        unfolding fl
        using r1 r2 r3 r4 r5 by (simp add: same_filter objs_final fr(3-6))
    qed
  qed
qed

lemma new_Ripple_frame:
  assumes "new_Ripple m = (a, m1)"
  shows "a = nobjs m" and "nobjs m1 = Suc (nobjs m)"
    and "\<And>b. b \<noteq> nobjs m \<Longrightarrow> objs m1 b = objs m b"
    and "iWave (objs m1 (nobjs m)) = wavelength (objs m1 (nobjs m))"
    and "arrays m1 = arrays m" and "ripples m1 = ripples m" and "ripples' m1 = ripples' m"
  using assms
  by (auto simp: new_Ripple_def Ripple_init_def Math_random_def Let_def
           split: prod.splits if_splits option.splits)

lemma spawn_loop_spec:
  assumes "spawn_loop src m n = (m2, n2)" and "n \<le> length (arrays m src)"
  shows "take n2 (arrays m2 src) = take n (arrays m src) @ map Some [nobjs m..<nobjs m2] \<and>
         n2 \<le> length (arrays m2 src) \<and> nobjs m \<le> nobjs m2 \<and>
         (\<forall>a<nobjs m. objs m2 a = objs m a) \<and>
         (\<forall>a. nobjs m \<le> a \<and> a < nobjs m2 \<longrightarrow> iWave (objs m2 a) = wavelength (objs m2 a)) \<and>
         ripples m2 = ripples m \<and> ripples' m2 = ripples' m"
  using assms
proof (induction src m n rule: spawn_loop.induct)
  case (1 src m n)
  show ?case
  proof (cases "ripplesToGen m \<ge> 1")
    case False
    with "1.prems" show ?thesis by simp
  next
    case True
    obtain a m1 where nr: "new_Ripple m = (a, m1)" by (cases "new_Ripple m")
    note fr = new_Ripple_frame [OF nr]
    let ?m1 = "m1\<lparr>arrays := (arrays m1)(src := js_store (arrays m1 src) n (Some a)),
                   ripplesToGen := ripplesToGen m1 - 1\<rparr>"
    from "1.prems"(1) True nr have rec: "spawn_loop src ?m1 (n + 1) = (m2, n2)" by simp
    have len: "n + 1 \<le> length (arrays ?m1 src)"
      using length_js_store [OF "1.prems"(2)] by (simp add: fr(5))
    note ih = "1.IH" [OF True nr [symmetric] rec len, unfolded Suc_eq_plus1 [symmetric]]
    have tk: "take (Suc n) (arrays ?m1 src) = take n (arrays m src) @ [Some (nobjs m)]"
      using take_js_store [OF "1.prems"(2)] by (simp add: fr(1,5))
    from ih have r1: "take n2 (arrays m2 src) =
                        take (Suc n) (arrays ?m1 src) @ map Some [nobjs ?m1..<nobjs m2]"
      and r2: "n2 \<le> length (arrays m2 src)" and r3: "nobjs ?m1 \<le> nobjs m2"
      and r4: "\<And>b. b < nobjs ?m1 \<Longrightarrow> objs m2 b = objs ?m1 b"
      and r5: "\<And>b. nobjs ?m1 \<le> b \<Longrightarrow> b < nobjs m2 \<Longrightarrow> iWave (objs m2 b) = wavelength (objs m2 b)"
      and r6: "ripples m2 = ripples ?m1" "ripples' m2 = ripples' ?m1"
      by blast+
    have n1: "nobjs ?m1 = Suc (nobjs m)" by (simp add: fr(2))
    have lt: "nobjs m < nobjs m2" using r3 n1 by simp
    have "take n2 (arrays m2 src) = take n (arrays m src) @ map Some [nobjs m..<nobjs m2]"
      using r1 lt unfolding tk n1 by (simp add: upt_conv_Cons)
    moreover have "\<forall>b<nobjs m. objs m2 b = objs m b"
      using r4 fr(3) by (simp add: n1)
    moreover have "\<forall>b. nobjs m \<le> b \<and> b < nobjs m2 \<longrightarrow> iWave (objs m2 b) = wavelength (objs m2 b)"
    proof (intro allI impI)
      fix b assume b: "nobjs m \<le> b \<and> b < nobjs m2"
      show "iWave (objs m2 b) = wavelength (objs m2 b)"
      proof (cases "b = nobjs m")
        case True
        with r4 [of b] fr(4) show ?thesis by (simp add: n1)
      next
        case False
        with b r5 [of b] show ?thesis by (simp add: n1)
      qed
    qed
    ultimately show ?thesis
      using r2 lt r6 by (simp add: fr(6,7))
  qed
qed

lemma active_prior:
  assumes "ripples_ok m"
  shows "\<exists>prior. active m = map Some prior \<and> distinct prior \<and> (\<forall>a\<in>set prior. a < nobjs m) \<and>
           length prior = nRipples m"
proof -
  let ?prior = "map the (active m)"
  from assms have all: "\<forall>e\<in>set (active m). \<exists>a. e = Some a \<and> a < nobjs m"
    by (auto simp: ripples_ok_def split: option.splits)
  then have "map (\<lambda>e. Some (the e)) (active m) = map (\<lambda>e. e) (active m)"
    by (intro map_cong refl) auto
  then have eq: "active m = map Some ?prior"
    by (simp add: o_def)
  moreover from assms have "distinct (map Some ?prior)"
    using eq by (simp add: ripples_ok_def)
  then have "distinct ?prior" using distinct_map [of Some ?prior] by blast
  moreover from all have "\<forall>a\<in>set ?prior. a < nobjs m" by auto
  moreover from assms have "length ?prior = nRipples m"
    by (simp add: ripples_ok_def active_def)
  ultimately show ?thesis by blast
qed

lemma genForces_parts:
  assumes "genForces m = Inr m1"
  shows "\<exists>m0 m2 n2 j m3.
           arrays m0 = arrays m \<and> objs m0 = objs m \<and> nobjs m0 = nobjs m \<and>
           ripples m0 = ripples m \<and> ripples' m0 = ripples' m \<and>
           spawn_loop (ripples m) m0 (nRipples m) = (m2, n2) \<and>
           compact_loop (ripples m) (ripples' m) n2 0 0 m2 = Inr (j, m3) \<and>
           m1 = m3\<lparr>ripples := ripples' m, ripples' := ripples' m, nRipples := j\<rparr>"
proof -
  define m0 where "m0 = (if conf_ripples (conf m) > 0
                then m\<lparr>ripplesToGen := ripplesToGen m + conf_ripples (conf m)\<rparr> else m)"
  have fr: "arrays m0 = arrays m" "objs m0 = objs m" "nobjs m0 = nobjs m"
           "ripples m0 = ripples m" "ripples' m0 = ripples' m"
    by (simp_all add: m0_def)
  obtain m2 n2 where sp: "spawn_loop (ripples m) m0 (nRipples m) = (m2, n2)"
    by (cases "spawn_loop (ripples m) m0 (nRipples m)")
  from assms obtain j m3 where "compact_loop (ripples m) (ripples' m) n2 0 0 m2 = Inr (j, m3)"
    and "m1 = m3\<lparr>ripples := ripples' m, ripples' := ripples' m, nRipples := j\<rparr>"
    unfolding genForces_def Let_def m0_def [symmetric] sp
    by (auto simp del: compact_loop.simps split: sum.splits)
  with fr sp show ?thesis by blast
qed


lemma applyForce_frame:
  assumes "applyForce a m = Inr (b, m1)"
  shows "conf m1 = conf m" and "ripplesToGen m1 = ripplesToGen m"
    and "\<And>r. (F m1 r = None) = (F m r = None)"
    and "\<And>x. wavelength (objs m1 x) = wavelength (objs m x)"
    and "\<And>x. rip_r (objs m1 x) = rip_r (objs m x)"
  using assms
  by (auto simp: applyForce_def Let_def split: option.splits if_splits)

lemma compact_loop_total:
  assumes "\<forall>k. i \<le> k \<and> k < n \<longrightarrow> js_load (arrays m src) k = Some (as ! k)"
      and "j \<le> i" and "j \<le> length (arrays m dst)"
      and "\<forall>k. i \<le> k \<and> k < n \<longrightarrow>
             wavelength (objs m (as ! k)) \<noteq> 0 \<and> F m (rip_r (objs m (as ! k))) \<noteq> None"
  shows "\<exists>j1 m1. compact_loop src dst n i j m = Inr (j1, m1) \<and> conf m1 = conf m \<and>
           ripplesToGen m1 = ripplesToGen m \<and> nobjs m1 = nobjs m \<and>
           (\<forall>r. (F m1 r = None) = (F m r = None))"
  using assms
proof (induction src dst n i j m rule: compact_loop.induct)
  case (1 src dst n i j m)
  show ?case
  proof (cases "i < n")
    case False
    then show ?thesis by simp
  next
    case True
    let ?a = "as ! i"
    from "1.prems"(1) True have ld: "js_load (arrays m src) i = Some ?a" by simp
    from "1.prems"(4) True have "wavelength (objs m ?a) \<noteq> 0" "F m (rip_r (objs m ?a)) \<noteq> None"
      by simp_all
    then obtain b m0 where ap: "applyForce ?a m = Inr (b, m0)"
      using applyForce_ok [of m ?a] by blast
    note fr = applyForce_Inr [OF ap] and ff = applyForce_frame [OF ap]
    have good0: "\<forall>k. i + 1 \<le> k \<and> k < n \<longrightarrow>
             wavelength (objs m0 (as ! k)) \<noteq> 0 \<and> F m0 (rip_r (objs m0 (as ! k))) \<noteq> None"
      using "1.prems"(4) by (simp add: ff)
    show ?thesis
    proof (cases b)
      case False
      have ents: "\<forall>k. i + 1 \<le> k \<and> k < n \<longrightarrow> js_load (arrays m0 src) k = Some (as ! k)"
        using "1.prems"(1) by (simp add: fr(3))
      have ji: "j \<le> i + 1" and jl: "j \<le> length (arrays m0 dst)"
        using "1.prems"(2,3) by (simp_all add: fr(3))
      from "1.IH"(2) [OF True ld ap refl False ents ji jl good0] obtain j1 m1 where
        "compact_loop src dst n (i + 1) j m0 = Inr (j1, m1)" "conf m1 = conf m0"
        "ripplesToGen m1 = ripplesToGen m0" "nobjs m1 = nobjs m0"
        "\<forall>r. (F m1 r = None) = (F m0 r = None)"
        by blast
      with True ld ap False show ?thesis
        by (subst compact_loop.simps) (simp add: ff fr(4) del: compact_loop.simps)
    next
      case alive: True
      let ?m2 = "m0\<lparr>arrays := (arrays m0)(dst := js_store (arrays m0 dst) j (js_load (arrays m0 src) i))\<rparr>"
      have ents: "\<forall>k. i + 1 \<le> k \<and> k < n \<longrightarrow> js_load (arrays ?m2 src) k = Some (as ! k)"
        using "1.prems"(1,2,3) by (auto simp: fr(3) js_load_store_other)
      have jl: "j + 1 \<le> length (arrays ?m2 dst)"
        using length_js_store [OF "1.prems"(3)] by (simp add: fr(3))
      have ji: "j + 1 \<le> i + 1" using "1.prems"(2) by simp
      have good2: "\<forall>k. i + 1 \<le> k \<and> k < n \<longrightarrow>
             wavelength (objs ?m2 (as ! k)) \<noteq> 0 \<and> F ?m2 (rip_r (objs ?m2 (as ! k))) \<noteq> None"
        using good0 by simp
      from "1.IH"(1) [OF True ld ap refl alive ents ji jl good2] obtain j1 m1 where
        "compact_loop src dst n (i + 1) (j + 1) ?m2 = Inr (j1, m1)" "conf m1 = conf ?m2"
        "ripplesToGen m1 = ripplesToGen ?m2" "nobjs m1 = nobjs ?m2"
        "\<forall>r. (F m1 r = None) = (F ?m2 r = None)"
        by blast
      with True ld ap alive show ?thesis
        by (subst compact_loop.simps) (simp add: ff fr(4) del: compact_loop.simps)
    qed
  qed
qed

lemma genForces_total:
  assumes ok: "ripples_ok m" and "conf_ripples (conf m) \<le> 0" and "ripplesToGen m < 1"
      and good: "\<forall>e\<in>set (active m). case e of None \<Rightarrow> False
                   | Some a \<Rightarrow> wavelength (objs m a) \<noteq> 0 \<and> F m (rip_r (objs m a)) \<noteq> None"
  shows "\<exists>m1. genForces m = Inr m1 \<and> conf m1 = conf m \<and> ripplesToGen m1 = ripplesToGen m \<and>
           nobjs m1 = nobjs m \<and> (\<forall>r. (F m1 r = None) = (F m r = None))"
proof -
  from active_prior [OF ok] obtain prior where
    pr: "active m = map Some prior" "length prior = nRipples m" by blast
  have sp: "spawn_loop (ripples m) m (nRipples m) = (m, nRipples m)"
    using assms(3) by simp
  from ok have len: "nRipples m \<le> length (arrays m (ripples m))" by (simp add: ripples_ok_def)
  have nth: "js_load (arrays m (ripples m)) k = Some (prior ! k)" if "k < nRipples m" for k
  proof -
    from that len have "js_load (arrays m (ripples m)) k = active m ! k"
      by (simp add: js_load_def active_def)
    also have "\<dots> = Some (prior ! k)"
      unfolding pr(1) using that pr(2) by (intro nth_map) simp
    finally show ?thesis .
  qed
  have ents: "\<forall>k. 0 \<le> k \<and> k < nRipples m \<longrightarrow> js_load (arrays m (ripples m)) k = Some (prior ! k)"
    using nth by simp
  have gd: "\<forall>k. 0 \<le> k \<and> k < nRipples m \<longrightarrow>
             wavelength (objs m (prior ! k)) \<noteq> 0 \<and> F m (rip_r (objs m (prior ! k))) \<noteq> None"
  proof (intro allI impI)
    fix k assume k: "0 \<le> k \<and> k < nRipples m"
    then have "Some (prior ! k) \<in> set (active m)"
      unfolding pr(1) using pr(2) by (metis length_map nth_map nth_mem)
    with good show "wavelength (objs m (prior ! k)) \<noteq> 0 \<and> F m (rip_r (objs m (prior ! k))) \<noteq> None"
      by fastforce
  qed
  have z: "(0::nat) \<le> 0" "0 \<le> length (arrays m (ripples' m))" by simp_all
  from compact_loop_total [OF ents z gd] obtain j m3 where
    cl: "compact_loop (ripples m) (ripples' m) (nRipples m) 0 0 m = Inr (j, m3)"
    and fr: "conf m3 = conf m" "ripplesToGen m3 = ripplesToGen m" "nobjs m3 = nobjs m"
            "\<forall>r. (F m3 r = None) = (F m r = None)"
    by blast
  have "genForces m = Inr (m3\<lparr>ripples := ripples' m, ripples' := ripples' m, nRipples := j\<rparr>)"
    unfolding genForces_def Let_def using assms(2)
    by (simp add: sp cl del: compact_loop.simps spawn_loop.simps)
  with fr show ?thesis by simp
qed

text \<open>The constructor, the allocation of a ripple, \<open>insertRipple\<close> of a ripple that is not
  active yet, and \<open>modelStep\<close> keep the ripples well formed.\<close>

lemma ripples_ok_fresh_model: "ripples_ok (fresh_model rws cls cf rnd)"
  by (simp add: ripples_ok_def active_def fresh_model_def)

lemma ripples_ok_place_ripple:
  assumes "ripples_ok m"
  shows "ripples_ok (snd (place_ripple rp m))" and "fst (place_ripple rp m) = nobjs m"
    and "Some (nobjs m) \<notin> set (active m)"
  using assms
  by (auto simp: ripples_ok_def active_def place_ripple_def Let_def split: option.splits)

lemma ripples_ok_insertRipple:
  assumes "ripples_ok m" and "a < nobjs m" and "Some a \<notin> set (active m)"
  shows "ripples_ok (insertRipple a m)" and "active (insertRipple a m) = active m @ [Some a]"
proof -
  from assms(1) have len: "nRipples m \<le> length (arrays m (ripples m))"
    by (simp add: ripples_ok_def)
  show act: "active (insertRipple a m) = active m @ [Some a]"
    using take_js_store [OF len, of "Some a"] by (simp add: active_def insertRipple_def)
  show "ripples_ok (insertRipple a m)"
    unfolding ripples_ok_def act
    using assms length_js_store [OF len, of "Some a"]
    by (auto simp: ripples_ok_def insertRipple_def split: option.splits)
qed

lemma ripples_ok_modelStep:
  assumes "ripples_ok m" and "modelStep m = Inr m1"
  shows "ripples_ok m1" and "active m1 = active m"
  using assms
  by (auto simp: modelStep_def ripples_ok_def active_def simp del: row_loop.simps
           split: sum.splits option.splits)

lemma three_drops_fields:
  "nRipples three_drops = 3" "nobjs three_drops = 3"
  "active three_drops = [Some 0, Some (Suc 0), Some 2]"
  "objs three_drops 0 = \<lparr>wavelength = 8, iWave = 5, rip_r = 1, rip_c = 1, mag = 3\<rparr>"
  "objs three_drops (Suc 0) = \<lparr>wavelength = 8, iWave = 2, rip_r = 2, rip_c = 2, mag = 10\<rparr>"
  "objs three_drops 2 = \<lparr>wavelength = 8, iWave = 5, rip_r = 3, rip_c = 3, mag = 7\<rparr>"
  "conf three_drops = pond_conf" "ripplesToGen three_drops = 0"
  "F three_drops = numArray2D 5 5 0"
  "length (arrays three_drops (ripples three_drops)) = 3"
  by (simp_all add: three_drops_def place_ripple_def insertRipple_def Let_def pond_def
        fresh_model_def js_store_def active_def pond_conf_def eval_nat_numeral)

lemma three_drops_ok: "ripples_ok three_drops"
  by (simp add: ripples_ok_def three_drops_fields)


text \<open>
  Claim C6: after a \<open>genForces\<close> call on well-formed ripples, the active ripples are the
  prior active ripples followed by the ripples spawned in the call (the objects allocated
  by it), in that order, restricted to those whose \<open>applyForce\<close> returned true, which is
  those whose counter is not 0 afterwards. Every prior ripple has had its counter
  decremented exactly once (none is skipped or applied twice), every spawned one stands one
  below its wavelength, no object occurs twice, and the result is well formed again, so the
  statement applies to the next call. Nothing is assumed about \<open>ripples\<close> and \<open>ripples_\<close>
  being different arrays: after the first call both fields refer to the same array, and the
  compaction then runs in place. An instance is two calls in a row on three ripples, the
  second of which expires in the second call.
\<close>

theorem genForces_keeps_the_survivors:
  assumes "ripples_ok m" and "genForces m = Inr m1"
  shows "\<exists>prior. active m = map Some prior \<and>
           active m1 = map Some (filter (\<lambda>a. iWave (objs m1 a) \<noteq> 0) (prior @ [nobjs m..<nobjs m1])) \<and>
           (\<forall>a\<in>set prior. objs m1 a = (objs m a)\<lparr>iWave := iWave (objs m a) - 1\<rparr>) \<and>
           (\<forall>a\<in>set [nobjs m..<nobjs m1]. iWave (objs m1 a) = wavelength (objs m1 a) - 1) \<and>
           distinct (active m1) \<and> ripples_ok m1 \<and> ripples m1 = ripples' m1"
proof -
  from active_prior [OF assms(1)] obtain prior where
    pr: "active m = map Some prior" "distinct prior" "\<forall>a\<in>set prior. a < nobjs m"
        "length prior = nRipples m"
    by blast
  from genForces_parts [OF assms(2)] obtain m0 m2 n2 j m3 where
    fr: "arrays m0 = arrays m" "objs m0 = objs m" "nobjs m0 = nobjs m"
        "ripples m0 = ripples m" "ripples' m0 = ripples' m"
    and sp: "spawn_loop (ripples m) m0 (nRipples m) = (m2, n2)"
    and cl: "compact_loop (ripples m) (ripples' m) n2 0 0 m2 = Inr (j, m3)"
    and m1: "m1 = m3\<lparr>ripples := ripples' m, ripples' := ripples' m, nRipples := j\<rparr>"
    by blast
  let ?src = "ripples m" and ?dst = "ripples' m"
  let ?fresh = "[nobjs m..<nobjs m2]"
  let ?as = "prior @ ?fresh"
  from assms(1) have len0: "nRipples m \<le> length (arrays m0 ?src)"
    by (simp add: ripples_ok_def fr)
  from spawn_loop_spec [OF sp len0]
  have s1: "take n2 (arrays m2 ?src) = map Some ?as"
    and s2: "n2 \<le> length (arrays m2 ?src)" and s3: "nobjs m \<le> nobjs m2"
    and s4: "\<And>a. a < nobjs m \<Longrightarrow> objs m2 a = objs m a"
    and s5: "\<And>a. nobjs m \<le> a \<Longrightarrow> a < nobjs m2 \<Longrightarrow> iWave (objs m2 a) = wavelength (objs m2 a)"
    using pr(1) by (simp_all add: fr active_def)
  have las: "length ?as = n2"
    using s1 s2 by (metis length_map length_take min.absorb2)
  have das: "distinct ?as"
    using pr(2,3) by auto
  have ents: "\<forall>k. 0 \<le> k \<and> k < n2 \<longrightarrow> js_load (arrays m2 ?src) k = Some (?as ! k)"
  proof (intro allI impI)
    fix k assume k: "0 \<le> k \<and> k < n2"
    then have "arrays m2 ?src ! k = take n2 (arrays m2 ?src) ! k" by simp
    also have "\<dots> = map Some ?as ! k" by (simp only: s1)
    also have "\<dots> = Some (?as ! k)"
      using k las by (intro nth_map) simp
    finally show "js_load (arrays m2 ?src) k = Some (?as ! k)"
      using k s2 by (simp add: js_load_def)
  qed
  have z: "(0::nat) \<le> 0" "0 \<le> n2" "0 \<le> length (arrays m2 ?dst)" by simp_all
  note cs = compact_loop_spec [OF cl z(1,2) las das ents z(3),
                               unfolded drop_0 take_0 append_Nil add_0]
  from cs
  have c1: "take j (arrays m3 ?dst) = map Some (filter (\<lambda>a. iWave (objs m2 a) \<noteq> 1) ?as)"
    and c2: "j \<le> length (arrays m3 ?dst)"
    and c4: "\<And>a. objs m3 a = (if a \<in> set ?as then (objs m2 a)\<lparr>iWave := iWave (objs m2 a) - 1\<rparr>
                            else objs m2 a)"
    and c5: "nobjs m3 = nobjs m2"
    by blast+
  have o1: "objs m1 = objs m3" and n1: "nobjs m1 = nobjs m2"
    and act1: "active m1 = take j (arrays m3 ?dst)"
    by (simp_all add: m1 c5 active_def)
  have surv: "filter (\<lambda>a. iWave (objs m2 a) \<noteq> 1) ?as = filter (\<lambda>a. iWave (objs m1 a) \<noteq> 0) ?as"
    by (rule filter_cong) (auto simp: o1 c4)
  have A: "active m1 = map Some (filter (\<lambda>a. iWave (objs m1 a) \<noteq> 0) (prior @ [nobjs m..<nobjs m1]))"
    by (simp only: act1 c1 surv n1)
  have B: "\<forall>a\<in>set prior. objs m1 a = (objs m a)\<lparr>iWave := iWave (objs m a) - 1\<rparr>"
    using pr(3) by (auto simp: o1 c4 s4)
  have C: "\<forall>a\<in>set [nobjs m..<nobjs m1]. iWave (objs m1 a) = wavelength (objs m1 a) - 1"
    using s5 by (auto simp: o1 c4 n1)
  have D: "distinct (active m1)"
  proof -
    let ?kept = "filter (\<lambda>a. iWave (objs m1 a) \<noteq> 0) (prior @ [nobjs m..<nobjs m1])"
    from das have "distinct ?kept" unfolding n1 by (rule distinct_filter)
    moreover have "inj_on Some (set ?kept)" by (rule inj_onI) simp
    ultimately have "distinct (map Some ?kept)" using distinct_map by blast
    then show ?thesis by (simp only: A)
  qed
  have bound: "\<forall>a\<in>set ?as. a < nobjs m1"
    using pr(3) s3 by (auto simp: n1)
  have E: "ripples_ok m1"
    unfolding ripples_ok_def
  proof (intro conjI ballI)
    show "nRipples m1 \<le> length (arrays m1 (ripples m1))"
      using c2 by (simp add: m1)
  next
    fix e assume "e \<in> set (active m1)"
    then obtain a where "e = Some a" "a \<in> set ?as"
      unfolding A n1 by auto
    with bound show "case e of None \<Rightarrow> False | Some a \<Rightarrow> a < nobjs m1" by simp
  next
    show "distinct (active m1)" by (rule D)
  qed
  have G: "ripples m1 = ripples' m1" by (simp add: m1)
  from pr(1) A B C D E G show ?thesis by blast
qed

theorem genForces_keeps_the_survivors_witness:
  "\<exists>m1 m2. genForces three_drops = Inr m1 \<and> genForces m1 = Inr m2 \<and>
     ripples m1 = ripples' m1 \<and>
     active m1 = [Some 0, Some 1, Some 2] \<and> active m2 = [Some 0, Some 2]"
proof -
  note f = three_drops_fields
  have rows5: "numArray2D 5 5 0 r \<noteq> None" if "0 \<le> r" "r < 5" for r
    using that by (simp add: numArray2D_def)
  have good0: "\<forall>e\<in>set (active three_drops). case e of None \<Rightarrow> False
       | Some a \<Rightarrow> wavelength (objs three_drops a) \<noteq> 0 \<and>
                  F three_drops (rip_r (objs three_drops a)) \<noteq> None"
    by (simp add: f rows5)
  from genForces_total [OF three_drops_ok _ _ good0] obtain m1 where
    g1: "genForces three_drops = Inr m1"
    and fr1: "conf m1 = pond_conf" "ripplesToGen m1 = 0" "nobjs m1 = 3"
             "\<forall>r. (F m1 r = None) = (numArray2D 5 5 0 r = None)"
    by (auto simp: f pond_conf_def)
  from genForces_keeps_the_survivors [OF three_drops_ok g1] obtain prior where
    p1: "active three_drops = map Some prior"
    and a1: "active m1 = map Some (filter (\<lambda>a. iWave (objs m1 a) \<noteq> 0)
                                    (prior @ [nobjs three_drops..<nobjs m1]))"
    and o1: "\<forall>a\<in>set prior. objs m1 a = (objs three_drops a)\<lparr>iWave := iWave (objs three_drops a) - 1\<rparr>"
    and ok1: "ripples_ok m1" and al1: "ripples m1 = ripples' m1"
    by blast
  from p1 have prior: "prior = [0, Suc 0, 2]"
    by (auto simp: f map_eq_Cons_conv)
  have ob1: "objs m1 0 = \<lparr>wavelength = 8, iWave = 4, rip_r = 1, rip_c = 1, mag = 3\<rparr>"
            "objs m1 (Suc 0) = \<lparr>wavelength = 8, iWave = 1, rip_r = 2, rip_c = 2, mag = 10\<rparr>"
            "objs m1 2 = \<lparr>wavelength = 8, iWave = 4, rip_r = 3, rip_c = 3, mag = 7\<rparr>"
    using o1 by (simp_all add: prior f)
  have act1: "active m1 = [Some 0, Some (Suc 0), Some 2]"
    unfolding a1 by (simp add: prior f fr1 ob1)
  have good1: "\<forall>e\<in>set (active m1). case e of None \<Rightarrow> False
       | Some a \<Rightarrow> wavelength (objs m1 a) \<noteq> 0 \<and> F m1 (rip_r (objs m1 a)) \<noteq> None"
    by (simp add: act1 ob1 fr1 rows5)
  from genForces_total [OF ok1 _ _ good1] obtain m2 where
    g2: "genForces m1 = Inr m2" and fr2: "nobjs m2 = 3"
    by (auto simp: fr1 pond_conf_def)
  from genForces_keeps_the_survivors [OF ok1 g2] obtain prior1 where
    p2: "active m1 = map Some prior1"
    and a2: "active m2 = map Some (filter (\<lambda>a. iWave (objs m2 a) \<noteq> 0)
                                    (prior1 @ [nobjs m1..<nobjs m2]))"
    and o2: "\<forall>a\<in>set prior1. objs m2 a = (objs m1 a)\<lparr>iWave := iWave (objs m1 a) - 1\<rparr>"
    by blast
  from p2 have prior1: "prior1 = [0, Suc 0, 2]"
    by (auto simp: act1 map_eq_Cons_conv)
  have ob2: "iWave (objs m2 0) = 3" "iWave (objs m2 (Suc 0)) = 0" "iWave (objs m2 2) = 3"
    using o2 by (simp_all add: prior1 ob1)
  have act2: "active m2 = [Some 0, Some 2]"
    unfolding a2 by (simp add: prior1 fr1 fr2 ob2)
  from g1 g2 al1 act1 act2 show ?thesis unfolding One_nat_def by blast
qed


section \<open>End to end: one ripple on a still grid\<close>

lemma reads_as_zero_on: "reads_as rws cls (\<lambda>r c. 0) X \<Longrightarrow> zero_on rws cls X"
  by (simp add: reads_as_def zero_on_def)

lemma reads_as_shaped: "reads_as rws cls f X \<Longrightarrow> shaped rws cls X"
  by (simp add: reads_as_def shaped_def)

lemma reads_as_numArray2D: "reads_as rws cls (\<lambda>r c. 0) (numArray2D rws cls 0)"
  by (simp add: reads_as_def numArray2D_def numArray_def index2_def)

lemma reads_as_cell_value:
  assumes "reads_as rws cls f X"
  shows "cell_value X r c = (if 0 \<le> r \<and> r < rws \<and> 0 \<le> c \<and> c < cls then Some (f r c) else None)"
proof -
  from assms have "index2 X r c =
        (if 0 \<le> r \<and> r < rws
         then Inr (if 0 \<le> c \<and> c < cls then Some (f r c) else None)
         else Inl TypeError)"
    by (simp add: reads_as_def)
  then show ?thesis
    by (auto simp: index2_def cell_value_def split: option.splits if_splits)
qed

lemma genForces_single:
  assumes "nRipples m = 1" and "js_load (arrays m (ripples m)) 0 = Some a"
      and "conf_ripples (conf m) \<le> 0" and "ripplesToGen m < 1"
      and "F m (rip_r (objs m a)) = Some row" and "wavelength (objs m a) \<noteq> 0"
  shows "genForces m =
     Inr (m\<lparr>F := (F m)(rip_r (objs m a) \<mapsto> row(rip_c (objs m a) \<mapsto> force_of (objs m a))),
            objs := (objs m)(a := (objs m a)\<lparr>iWave := iWave (objs m a) - 1\<rparr>),
            arrays := (if iWave (objs m a) \<noteq> 1
                       then (arrays m)(ripples' m := js_store (arrays m (ripples' m)) 0 (Some a))
                       else arrays m),
            ripples := ripples' m, ripples' := ripples' m,
            nRipples := (if iWave (objs m a) \<noteq> 1 then 1 else 0)\<rparr>)"
proof -
  have sp: "spawn_loop (ripples m) m (Suc 0) = (m, Suc 0)"
    using assms(4) by simp
  note ap = applyForce_ok [OF assms(5,6)]
  show ?thesis
    unfolding genForces_def Let_def using assms(1,2,3)
    by (simp add: sp ap del: spawn_loop.simps)
qed

lemma modelStep_flat:
  assumes dims: "rows m = R" "cols m = C"
      and rF: "reads_as R C f (F m)"
      and rV: "reads_as R C (\<lambda>r c. 0) (V m)" and rM: "reads_as R C (\<lambda>r c. 0) (M m)"
      and rV': "reads_as R C g (V' m)" and rM': "reads_as R C h (M' m)"
  shows "\<exists>F1 V1 M1. modelStep m = Inr (m\<lparr>F := F1, V := V1, V' := V m, M := M1, M' := M m\<rparr>) \<and>
           reads_as R C (\<lambda>r c. 0) F1 \<and>
           reads_as R C (\<lambda>r c. f r c * FORCE_INFLUENCE) V1 \<and>
           reads_as R C (\<lambda>r c. f r c * FORCE_INFLUENCE) M1"
proof -
  have ok: "grid_ok m"
    using assms by (simp add: grid_ok_def reads_as_shaped)
  from modelStep_cells [OF ok] obtain F1 V1 M1 where
    step: "modelStep m = Inr (m\<lparr>F := F1, V := V1, V' := V m, M := M1, M' := M m\<rparr>)"
    and upd: "updated_on m (\<lambda>r c. 0 \<le> r \<and> r < rows m \<and> 0 \<le> c \<and> c < cols m)
                (F m, V' m, M' m) (F1, V1, M1)"
    by blast
  have zM: "zero_on (rows m) (cols m) (M m)"
    using rM dims by (simp add: reads_as_zero_on)
  have nv: "next_V m r c = Some (f r c * FORCE_INFLUENCE)"
    and nm: "next_M m r c = Some (f r c * FORCE_INFLUENCE)"
    if "0 \<le> r" "r < R" "0 \<le> c" "c < C" for r c
  proof -
    from that have cv: "cell_value (F m) r c = Some (f r c)" "cell_value (V m) r c = Some 0"
        "cell_value (M m) r c = Some 0"
      by (simp_all add: reads_as_cell_value [OF rF] reads_as_cell_value [OF rV]
            reads_as_cell_value [OF rM])
    from that dims have ft: "force_term m r c = Inr 0"
      by (intro force_term_zero [OF zM]) simp_all
    show "next_V m r c = Some (f r c * FORCE_INFLUENCE)"
      by (simp add: next_V_def cv ft)
    then show "next_M m r c = Some (f r c * FORCE_INFLUENCE)"
      by (simp add: next_M_def cv)
  qed
  from upd have
    iF: "\<And>r c. index2 F1 r c = (if 0 \<le> r \<and> r < R \<and> 0 \<le> c \<and> c < C then Inr (Some 0) else index2 (F m) r c)"
    and iV: "\<And>r c. index2 V1 r c = (if 0 \<le> r \<and> r < R \<and> 0 \<le> c \<and> c < C then Inr (next_V m r c) else index2 (V' m) r c)"
    and iM: "\<And>r c. index2 M1 r c = (if 0 \<le> r \<and> r < R \<and> 0 \<le> c \<and> c < C then Inr (next_M m r c) else index2 (M' m) r c)"
    by (simp_all add: updated_on_def dims)
  have "reads_as R C (\<lambda>r c. 0) F1"
    unfolding reads_as_def using rF by (auto simp: iF reads_as_def)
  moreover have "reads_as R C (\<lambda>r c. f r c * FORCE_INFLUENCE) V1"
    unfolding reads_as_def using rV' nv by (auto simp: iV reads_as_def)
  moreover have "reads_as R C (\<lambda>r c. f r c * FORCE_INFLUENCE) M1"
    unfolding reads_as_def using rM' nm by (auto simp: iM reads_as_def)
  ultimately show ?thesis using step by blast
qed

lemma one_drop_fields:
  "rows one_drop = 5" "cols one_drop = 5" "conf one_drop = pond_conf"
  "F one_drop = numArray2D 5 5 0" "V one_drop = numArray2D 5 5 0" "V' one_drop = numArray2D 5 5 0"
  "M one_drop = numArray2D 5 5 0" "M' one_drop = numArray2D 5 5 0"
  "nRipples one_drop = 1" "ripples one_drop = Arr0" "ripples' one_drop = Arr1"
  "arrays one_drop = (\<lambda>_. [])(Arr0 := [Some 0])"
  "objs one_drop 0 = \<lparr>wavelength = 4, iWave = 4, rip_r = 2, rip_c = 2, mag = 10\<rparr>"
  "ripplesToGen one_drop = 0"
  by (simp_all add: one_drop_def place_ripple_def insertRipple_def Let_def pond_def
        fresh_model_def js_store_def pond_conf_def)

lemma reads_as_row:
  assumes "reads_as rws cls f X" and "0 \<le> r" and "r < rws"
  shows "\<exists>row. X r = Some row \<and> (\<forall>c. row c = (if 0 \<le> c \<and> c < cls then Some (f r c) else None))"
proof -
  from assms have "\<And>c. index2 X r c = Inr (if 0 \<le> c \<and> c < cls then Some (f r c) else None)"
    by (simp add: reads_as_def)
  then show ?thesis
    by (cases "X r") (auto simp: index2_def)
qed

lemma reads_as_assign:
  assumes "reads_as rws cls f X" and "X r0 = Some row" and "0 \<le> r0" "r0 < rws" "0 \<le> c0" "c0 < cls"
  shows "reads_as rws cls (\<lambda>r c. if r = r0 \<and> c = c0 then x else f r c) (X(r0 \<mapsto> row(c0 \<mapsto> x)))"
proof -
  from reads_as_row [OF assms(1,3,4)] assms(2)
  have row: "\<And>c. row c = (if 0 \<le> c \<and> c < cls then Some (f r0 c) else None)" by simp
  from assms(1) have X: "\<And>r c. index2 X r c =
        (if 0 \<le> r \<and> r < rws
         then Inr (if 0 \<le> c \<and> c < cls then Some (f r c) else None)
         else Inl TypeError)"
    by (simp add: reads_as_def)
  show ?thesis
    unfolding reads_as_def
  proof (intro allI)
    fix r c
    show "index2 (X(r0 \<mapsto> row(c0 \<mapsto> x))) r c =
        (if 0 \<le> r \<and> r < rws
         then Inr (if 0 \<le> c \<and> c < cls then Some (if r = r0 \<and> c = c0 then x else f r c) else None)
         else Inl TypeError)"
    proof (cases "r = r0")
      case True
      with assms(3-6) show ?thesis by (simp add: index2_def row)
    next
      case False
      then have "index2 (X(r0 \<mapsto> row(c0 \<mapsto> x))) r c = index2 X r c"
        by (simp add: index2_def)
      with False show ?thesis by (simp add: X)
    qed
  qed
qed

lemma one_drop_two_ticks:
  "\<exists>mb md. tick one_drop = Inr mb \<and> tick mb = Inr md \<and>
     reads_as 5 5 (\<lambda>r c. 0) (M mb) \<and>
     reads_as 5 5 (\<lambda>r c. (if r = 2 \<and> c = 2 then 10 else 0) * FORCE_INFLUENCE) (M md)"
proof -
  note f = one_drop_fields
  let ?rp = "\<lparr>wavelength = 4, iWave = 4, rip_r = 2, rip_c = 2, mag = 10::real\<rparr>"
  have blank: "reads_as 5 5 (\<lambda>r c. 0) (numArray2D 5 5 0)" by (rule reads_as_numArray2D)
  \<comment> \<open>first tick: genForces\<close>
  have row0: "F one_drop (rip_r (objs one_drop 0)) = Some (numArray 5 0)"
    by (simp add: f numArray2D_def)
  have "genForces one_drop = Inr
     (one_drop\<lparr>F := (F one_drop)(rip_r (objs one_drop 0) \<mapsto>
                    (numArray 5 0)(rip_c (objs one_drop 0) \<mapsto> force_of (objs one_drop 0))),
            objs := (objs one_drop)(0 := (objs one_drop 0)\<lparr>iWave := iWave (objs one_drop 0) - 1\<rparr>),
            arrays := (if iWave (objs one_drop 0) \<noteq> 1
                       then (arrays one_drop)(ripples' one_drop :=
                              js_store (arrays one_drop (ripples' one_drop)) 0 (Some 0))
                       else arrays one_drop),
            ripples := ripples' one_drop, ripples' := ripples' one_drop,
            nRipples := (if iWave (objs one_drop 0) \<noteq> 1 then 1 else 0)\<rparr>)"
    by (rule genForces_single [OF _ _ _ _ row0]) (simp_all add: f js_load_def pond_conf_def)
  then obtain ma where ga: "genForces one_drop = Inr ma"
    and Fa: "F ma = (numArray2D 5 5 0)(2 \<mapsto> (numArray 5 0)(2 \<mapsto> force_of ?rp))"
    and fa: "rows ma = 5" "cols ma = 5" "conf ma = pond_conf" "V ma = numArray2D 5 5 0"
            "V' ma = numArray2D 5 5 0" "M ma = numArray2D 5 5 0" "M' ma = numArray2D 5 5 0"
            "nRipples ma = 1" "ripples ma = Arr1" "arrays ma Arr1 = [Some 0]"
            "objs ma 0 = \<lparr>wavelength = 4, iWave = 3, rip_r = 2, rip_c = 2, mag = 10\<rparr>"
            "ripplesToGen ma = 0"
    by (simp add: f js_store_def)
  have f0: "force_of ?rp = 0" by (simp add: force_of_def)
  have "reads_as 5 5 (\<lambda>r c. if r = 2 \<and> c = 2 then 0 else 0) (F ma)"
    unfolding Fa f0
    by (rule reads_as_assign [OF blank]) (simp_all add: numArray2D_def)
  then have rFa: "reads_as 5 5 (\<lambda>r c. 0) (F ma)" by simp
  \<comment> \<open>first tick: modelStep\<close>
  from modelStep_flat [OF fa(1,2) rFa, of "\<lambda>r c. 0" "\<lambda>r c. 0"] blank obtain F1 V1 M1 where
    sa: "modelStep ma = Inr (ma\<lparr>F := F1, V := V1, V' := V ma, M := M1, M' := M ma\<rparr>)"
    and r1: "reads_as 5 5 (\<lambda>r c. 0) F1" "reads_as 5 5 (\<lambda>r c. 0) V1" "reads_as 5 5 (\<lambda>r c. 0) M1"
    by (auto simp: fa)
  define mb where "mb = ma\<lparr>F := F1, V := V1, V' := V ma, M := M1, M' := M ma\<rparr>"
  have t1: "tick one_drop = Inr mb"
    by (simp add: tick_def bind_err_def ga sa mb_def)
  \<comment> \<open>second tick: genForces\<close>
  from reads_as_row [OF r1(1), of 2] obtain row where row: "F1 2 = Some row" by auto
  have ob: "objs mb 0 = \<lparr>wavelength = 4, iWave = 3, rip_r = 2, rip_c = 2, mag = 10\<rparr>"
    by (simp add: mb_def fa)
  have rowb: "F mb (rip_r (objs mb 0)) = Some row"
    by (simp add: ob) (simp add: mb_def row)
  have "genForces mb = Inr
     (mb\<lparr>F := (F mb)(rip_r (objs mb 0) \<mapsto> row(rip_c (objs mb 0) \<mapsto> force_of (objs mb 0))),
            objs := (objs mb)(0 := (objs mb 0)\<lparr>iWave := iWave (objs mb 0) - 1\<rparr>),
            arrays := (if iWave (objs mb 0) \<noteq> 1
                       then (arrays mb)(ripples' mb := js_store (arrays mb (ripples' mb)) 0 (Some 0))
                       else arrays mb),
            ripples := ripples' mb, ripples' := ripples' mb,
            nRipples := (if iWave (objs mb 0) \<noteq> 1 then 1 else 0)\<rparr>)"
    by (rule genForces_single [OF _ _ _ _ rowb]) (simp_all add: ob, simp_all add: mb_def fa js_load_def pond_conf_def)
  then obtain mc where gc: "genForces mb = Inr mc"
    and Fc: "F mc = F1(2 \<mapsto> row(2 \<mapsto> force_of \<lparr>wavelength = 4, iWave = 3, rip_r = 2, rip_c = 2, mag = 10\<rparr>))"
    and fc: "rows mc = 5" "cols mc = 5" "V mc = V1" "V' mc = numArray2D 5 5 0" "M mc = M1"
            "M' mc = numArray2D 5 5 0"
    by (simp add: ob) (simp add: mb_def fa)
  have f1: "force_of \<lparr>wavelength = 4, iWave = 3, rip_r = 2, rip_c = 2, mag = 10\<rparr> = 10"
    by (simp add: force_of_def)
  have rFc: "reads_as 5 5 (\<lambda>r c. if r = 2 \<and> c = 2 then 10 else 0) (F mc)"
    unfolding Fc f1 by (rule reads_as_assign [OF r1(1) row]) simp_all
  \<comment> \<open>second tick: modelStep\<close>
  from modelStep_flat [OF fc(1,2) rFc, of "\<lambda>r c. 0" "\<lambda>r c. 0"] blank r1 obtain F2 V2 M2 where
    sc: "modelStep mc = Inr (mc\<lparr>F := F2, V := V2, V' := V mc, M := M2, M' := M mc\<rparr>)"
    and r2: "reads_as 5 5 (\<lambda>r c. (if r = 2 \<and> c = 2 then 10 else 0) * FORCE_INFLUENCE) M2"
    by (auto simp: fc)
  define md where "md = mc\<lparr>F := F2, V := V2, V' := V mc, M := M2, M' := M mc\<rparr>"
  have t2: "tick mb = Inr md"
    by (simp add: tick_def bind_err_def gc sc md_def)
  have "reads_as 5 5 (\<lambda>r c. 0) (M mb)" using r1(3) by (simp add: mb_def)
  moreover have "reads_as 5 5 (\<lambda>r c. (if r = 2 \<and> c = 2 then 10 else 0) * FORCE_INFLUENCE) (M md)"
    using r2 by (simp add: md_def)
  ultimately show ?thesis using t1 t2 by blast
qed

text \<open>
  Claim C3 says that after one tick (\<open>genForces\<close>, then \<open>modelStep\<close>) on the still 5 x 5 grid
  with one inserted ripple of wavelength 4 and magnitude 10 on cell (2, 2), the magnitude
  at (2, 2) is not zero. It is exactly 0: the first \<open>applyForce\<close> of a ripple writes
  \<open>10 * sin 0\<close>.
\<close>

theorem one_drop_first_tick_magnitude_zero:
  "\<exists>m1. tick one_drop = Inr m1 \<and> cell_value (M m1) 2 2 = Some 0"
proof -
  from one_drop_two_ticks obtain mb where
    "tick one_drop = Inr mb" and "reads_as 5 5 (\<lambda>r c. 0) (M mb)"
    by blast
  then show ?thesis
    by (auto simp: reads_as_cell_value)
qed

text \<open>
  Claim C3, amended: after the first tick every magnitude of the grid, the one at (2, 2)
  included, is exactly 0; after the second tick the magnitude at (2, 2) is 1 (the force
  \<open>10 * sin (pi / 2)\<close> times \<open>FORCE_INFLUENCE\<close>), and the magnitudes of the adjacent cells and
  of all cells further away are exactly 0.
\<close>

theorem one_drop_magnitudes_after_two_ticks:
  "\<exists>m1 m2. tick one_drop = Inr m1 \<and> tick m1 = Inr m2 \<and>
     (\<forall>r c. cell_value (M m1) r c =
        (if 0 \<le> r \<and> r < 5 \<and> 0 \<le> c \<and> c < 5 then Some 0 else None)) \<and>
     (\<forall>r c. cell_value (M m2) r c =
        (if 0 \<le> r \<and> r < 5 \<and> 0 \<le> c \<and> c < 5
         then Some (if r = 2 \<and> c = 2 then 1 else 0) else None))"
proof -
  from one_drop_two_ticks obtain mb md where
    t: "tick one_drop = Inr mb" "tick mb = Inr md"
    and r1: "reads_as 5 5 (\<lambda>r c. 0) (M mb)"
    and r2: "reads_as 5 5 (\<lambda>r c. (if r = 2 \<and> c = 2 then 10 else 0) * FORCE_INFLUENCE) (M md)"
    by blast
  have "\<forall>r c. cell_value (M mb) r c =
        (if 0 \<le> r \<and> r < 5 \<and> 0 \<le> c \<and> c < 5 then Some 0 else None)"
    by (simp add: reads_as_cell_value [OF r1])
  moreover have "\<forall>r c. cell_value (M md) r c =
        (if 0 \<le> r \<and> r < 5 \<and> 0 \<le> c \<and> c < 5
         then Some (if r = 2 \<and> c = 2 then 1 else 0) else None)"
    by (simp add: reads_as_cell_value [OF r2] FORCE_INFLUENCE_def)
  ultimately show ?thesis using t by blast
qed

theorem one_drop_magnitudes_after_two_ticks_witness:
  "\<exists>m1 m2. tick one_drop = Inr m1 \<and> tick m1 = Inr m2 \<and>
     cell_value (M m1) 2 2 = Some 0 \<and> cell_value (M m1) 2 3 = Some 0 \<and>
     cell_value (M m2) 2 2 = Some 1 \<and> cell_value (M m2) 2 3 = Some 0 \<and>
     cell_value (M m2) 0 4 = Some 0"
proof -
  from one_drop_magnitudes_after_two_ticks obtain m1 m2 where
    "tick one_drop = Inr m1" "tick m1 = Inr m2"
    and a: "\<forall>r c. cell_value (M m1) r c =
        (if 0 \<le> r \<and> r < 5 \<and> 0 \<le> c \<and> c < 5 then Some 0 else None)"
    and b: "\<forall>r c. cell_value (M m2) r c =
        (if 0 \<le> r \<and> r < 5 \<and> 0 \<le> c \<and> c < 5
         then Some (if r = 2 \<and> c = 2 then 1 else 0) else None)"
    by blast
  moreover from a have "cell_value (M m1) 2 2 = Some 0" "cell_value (M m1) 2 3 = Some 0"
    by simp_all
  moreover from b have "cell_value (M m2) 2 2 = Some 1" "cell_value (M m2) 2 3 = Some 0"
      "cell_value (M m2) 0 4 = Some 0"
    by simp_all
  ultimately show ?thesis by blast
qed

end
